theory Spec2Isabelle
  imports Complex_Main "HOL-Library.AList"
begin

section \<open>Characters and strings\<close>

text \<open>
  A Python \<open>str\<close> is modelled as a \<open>string\<close>; each \<open>char\<close> stands for one code point in
  the range 0..255. The three classifications below are the ones the program relies on,
  restricted to that range: what \<open>\s\<close> and \<open>str.strip()\<close> take for white space, what \<open>\d\<close>
  takes for a decimal digit, and the lower-casing that \<open>re.IGNORECASE\<close> compares with.
\<close>

definition is_space :: "char \<Rightarrow> bool" where
  "is_space c = (c \<in> set [CHR 0x09, CHR 0x0A, CHR 0x0B, CHR 0x0C, CHR 0x0D,
                          CHR 0x1C, CHR 0x1D, CHR 0x1E, CHR 0x1F, CHR 0x20,
                          CHR 0x85, CHR 0xA0])"

definition is_digit :: "char \<Rightarrow> bool" where
  "is_digit c = (c \<in> set ''0123456789'')"

definition upper_chars :: string where
  "upper_chars = ''ABCDEFGHIJKLMNOPQRSTUVWXYZ'' @
     [CHR 0xC0, CHR 0xC1, CHR 0xC2, CHR 0xC3, CHR 0xC4, CHR 0xC5, CHR 0xC6, CHR 0xC7,
      CHR 0xC8, CHR 0xC9, CHR 0xCA, CHR 0xCB, CHR 0xCC, CHR 0xCD, CHR 0xCE, CHR 0xCF,
      CHR 0xD0, CHR 0xD1, CHR 0xD2, CHR 0xD3, CHR 0xD4, CHR 0xD5, CHR 0xD6, CHR 0xD8,
      CHR 0xD9, CHR 0xDA, CHR 0xDB, CHR 0xDC, CHR 0xDD, CHR 0xDE]"

definition lower_chars :: string where
  "lower_chars = ''abcdefghijklmnopqrstuvwxyz'' @
     [CHR 0xE0, CHR 0xE1, CHR 0xE2, CHR 0xE3, CHR 0xE4, CHR 0xE5, CHR 0xE6, CHR 0xE7,
      CHR 0xE8, CHR 0xE9, CHR 0xEA, CHR 0xEB, CHR 0xEC, CHR 0xED, CHR 0xEE, CHR 0xEF,
      CHR 0xF0, CHR 0xF1, CHR 0xF2, CHR 0xF3, CHR 0xF4, CHR 0xF5, CHR 0xF6, CHR 0xF8,
      CHR 0xF9, CHR 0xFA, CHR 0xFB, CHR 0xFC, CHR 0xFD, CHR 0xFE]"

definition lower :: "char \<Rightarrow> char" where
  "lower c = (case map_of (zip upper_chars lower_chars) c of Some l \<Rightarrow> l | None \<Rightarrow> c)"

text \<open>\<open>str.strip()\<close>: white space removed at both ends.\<close>

definition strip :: "string \<Rightarrow> string" where
  "strip s = rev (dropWhile is_space (rev (dropWhile is_space s)))"

text \<open>
  The value of a string of decimal digits (the only strings the groups \<open>low\<close>, \<open>high\<close> and
  \<open>val\<close> can hold). Python integers are unbounded, and so is the value.
\<close>

definition digit_val :: "char \<Rightarrow> int" where
  "digit_val c = int (of_char c) - 48"

definition int_of_digits :: "string \<Rightarrow> int" where
  "int_of_digits s = foldl (\<lambda>a c. 10 * a + digit_val c) 0 s"

text \<open>The decimal digits of an integer, with its sign.\<close>

definition digit_char :: "nat \<Rightarrow> char" where
  "digit_char d = ''0123456789'' ! d"

fun digits_of :: "nat \<Rightarrow> string" where
  "digits_of n = (if n < 10 then [digit_char n] else digits_of (n div 10) @ [digit_char (n mod 10)])"

declare digits_of.simps [simp del]

definition str_int :: "int \<Rightarrow> string" where
  "str_int n = (if n < 0 then CHR ''-'' # digits_of (nat (- n)) else digits_of (nat n))"

section \<open>Exceptions and the digit limit of the interpreter\<close>

datatype exn = RequestException string | HTTPError nat | ValueError | OverflowError | OSError string

text \<open>
  \<open>int(s)\<close> and \<open>str(n)\<close> raise \<open>ValueError\<close> when the digits are more than
  \<open>sys.get_int_max_str_digits()\<close>: 4300 unless the interpreter is told otherwise, and no
  limit at all when it is 0. The limit \<open>maxd\<close> is a setting of the interpreter that runs the
  program.
\<close>

definition too_long :: "nat \<Rightarrow> nat \<Rightarrow> bool" where
  "too_long maxd n = (maxd \<noteq> 0 \<and> maxd < n)"

definition py_int :: "nat \<Rightarrow> string \<Rightarrow> exn + int" where
  "py_int maxd s = (if too_long maxd (length s) then Inl ValueError else Inr (int_of_digits s))"

definition py_str_int :: "nat \<Rightarrow> int \<Rightarrow> exn + string" where
  "py_str_int maxd n =
     (if too_long maxd (length (digits_of (nat \<bar>n\<bar>))) then Inl ValueError else Inr (str_int n))"

section \<open>The two patterns and the regular-expression search\<close>

text \<open>
  The patterns use three constructs only: a literal, \<open>\s*\<close> (a character class, zero or more
  times, greedy) and \<open>(?P<name>\d+)\<close> (a character class, one or more times, greedy, captured
  under a name). A pattern is the list of its pieces with its flag.
\<close>

datatype cls = Space | Digit

datatype node = Literal string | Star cls | Group string cls

datatype regex = Regex (nodes: "node list") (ignorecase: bool)

definition PRICE_RANGE_RE :: regex where
  "PRICE_RANGE_RE = Regex
     [Literal ''Price Range:'', Star Space, Group ''low'' Digit, Star Space, Literal ''-'',
      Star Space, Group ''high'' Digit, Star Space, Literal ''points'']
     True"

definition PRICE_SINGLE_RE :: regex where
  "PRICE_SINGLE_RE = Regex
     [Literal ''Price Range:'', Star Space, Group ''val'' Digit, Star Space, Literal ''points'']
     True"

fun in_cls :: "cls \<Rightarrow> char \<Rightarrow> bool" where
  "in_cls Space c = is_space c"
| "in_cls Digit c = is_digit c"

text \<open>A pattern character against a text character, under the flag.\<close>

definition char_eq :: "bool \<Rightarrow> char \<Rightarrow> char \<Rightarrow> bool" where
  "char_eq ic p c = (if ic then lower c = lower p else c = p)"

fun lit_prefix :: "bool \<Rightarrow> string \<Rightarrow> string \<Rightarrow> bool" where
  "lit_prefix ic [] s = True"
| "lit_prefix ic (p # ps) [] = False"
| "lit_prefix ic (p # ps) (c # cs) = (char_eq ic p c \<and> lit_prefix ic ps cs)"

text \<open>
  The backtracking of a greedy repetition: take one more character of the class while
  that leads to a match of what follows (the continuation \<open>k\<close>, given the characters taken
  and the rest of the text); give the character back when it does not.
\<close>

fun greedy :: "(char \<Rightarrow> bool) \<Rightarrow> string \<Rightarrow> string \<Rightarrow> (string \<Rightarrow> string \<Rightarrow> 'a option) \<Rightarrow> 'a option" where
  "greedy P acc [] k = k acc []"
| "greedy P acc (c # cs) k =
     (if P c then (case greedy P (acc @ [c]) cs k of Some r \<Rightarrow> Some r | None \<Rightarrow> k acc (c # cs))
      else k acc (c # cs))"

text \<open>
  A match anchored at the start of \<open>s\<close>: the captured groups (most recent first), or
  \<open>None\<close>.
\<close>

type_synonym groups = "(string \<times> string) list"

fun re_match :: "bool \<Rightarrow> node list \<Rightarrow> string \<Rightarrow> groups \<Rightarrow> groups option" where
  "re_match ic [] s gs = Some gs"
| "re_match ic (Literal l # rs) s gs =
     (if lit_prefix ic l s then re_match ic rs (drop (length l) s) gs else None)"
| "re_match ic (Star cl # rs) s gs =
     greedy (in_cls cl) [] s (\<lambda>_ rest. re_match ic rs rest gs)"
| "re_match ic (Group g cl # rs) s gs =
     greedy (in_cls cl) [] s (\<lambda>taken rest. if taken = [] then None else re_match ic rs rest ((g, taken) # gs))"

text \<open>\<open>pattern.search(text)\<close>: the match at the leftmost position that has one.\<close>

fun search :: "regex \<Rightarrow> string \<Rightarrow> groups option" where
  "search re [] = re_match (ignorecase re) (nodes re) [] []"
| "search re (c # cs) =
     (case re_match (ignorecase re) (nodes re) (c # cs) [] of
        Some m \<Rightarrow> Some m
      | None \<Rightarrow> search re cs)"

text \<open>\<open>m.group(name)\<close>; every group of the two patterns takes part in every match.\<close>

definition group :: "groups \<Rightarrow> string \<Rightarrow> string" where
  "group m name = (case map_of m name of Some s \<Rightarrow> s | None \<Rightarrow> [])"

section \<open>The text extractor\<close>

text \<open>
  \<open>extract_price_range_from_html\<close>. The flattening of the markup,
  \<open>BeautifulSoup(html, "lxml").get_text(separator=" ", strip=True)\<close>, belongs to a library
  and is the parameter \<open>get_text\<close>. The function returns a pair, returns \<open>None\<close>, or raises
  what \<open>int\<close> raises; of a pair, \<open>low\<close> is converted first.
\<close>

definition extract_price_range_from_html ::
    "nat \<Rightarrow> (string \<Rightarrow> string) \<Rightarrow> string \<Rightarrow> exn + (int \<times> int) option" where
  "extract_price_range_from_html maxd get_text html =
     (let tx = get_text html in
      case search PRICE_RANGE_RE tx of
        Some m \<Rightarrow>
          (case py_int maxd (group m ''low'') of
             Inl err \<Rightarrow> Inl err
           | Inr low \<Rightarrow>
               (case py_int maxd (group m ''high'') of
                  Inl err \<Rightarrow> Inl err
                | Inr high \<Rightarrow> Inr (Some (low, high))))
      | None \<Rightarrow>
          (case search PRICE_SINGLE_RE tx of
             Some m \<Rightarrow>
               (case py_int maxd (group m ''val'') of
                  Inl err \<Rightarrow> Inl err
                | Inr v \<Rightarrow> Inr (Some (v, v)))
           | None \<Rightarrow> Inr None))"

section \<open>The dataset\<close>

text \<open>
  A cell of the table: missing (\<open>NaN\<close>, \<open>pd.NA\<close>), a string, a Python integer, or any other
  scalar (a float, a boolean, a 64-bit integer of a loaded column) given by its \<open>str()\<close>
  rendering.
\<close>

datatype cell = NA | Str string | Num int | Other string

text \<open>
  The \<open>DataFrame\<close>: its column labels in order and its rows in index order (the index of
  \<open>pd.read_csv\<close> is \<open>0, 1, \<dots>\<close>, so a row's label is its position). A row gives the cell of
  every column label; only the labels in \<open>columns\<close> are columns of the table.
\<close>

type_synonym row = "string \<Rightarrow> cell"

record dataframe =
  columns :: "string list"
  rows :: "row list"

text \<open>\<open>df[c] = v\<close> with a scalar \<open>v\<close>: an existing column is overwritten in place, a new one is
  appended after the last column.\<close>

definition set_column :: "dataframe \<Rightarrow> string \<Rightarrow> cell \<Rightarrow> dataframe" where
  "set_column df c v =
     \<lparr>columns = (if c \<in> set (columns df) then columns df else columns df @ [c]),
      rows = map (\<lambda>r. r(c := v)) (rows df)\<rparr>"

text \<open>\<open>list(df[c].items())\<close>: the pairs of index label and cell, a copy taken once.\<close>

definition items :: "dataframe \<Rightarrow> string \<Rightarrow> (nat \<times> cell) list" where
  "items df c = enumerate 0 (map (\<lambda>r. r c) (rows df))"

text \<open>\<open>df.at[i, c] = v\<close>; the program only writes at labels \<open>i\<close> of the index.\<close>

definition set_at :: "dataframe \<Rightarrow> nat \<Rightarrow> string \<Rightarrow> cell \<Rightarrow> dataframe" where
  "set_at df i c v = df\<lparr>rows := (rows df)[i := ((rows df) ! i)(c := v)]\<rparr>"

definition isna :: "cell \<Rightarrow> bool" where
  "isna v = (v = NA)"

text \<open>\<open>str(url)\<close>. The program never renders a missing cell: \<open>pd.isna\<close> is tested first.\<close>

fun py_str :: "nat \<Rightarrow> cell \<Rightarrow> exn + string" where
  "py_str maxd NA = Inr ''nan''"
| "py_str maxd (Str s) = Inr s"
| "py_str maxd (Num n) = py_str_int maxd n"
| "py_str maxd (Other s) = Inr s"

section \<open>The world outside the program\<close>

text \<open>
  What \<open>requests.get(url, headers=\<dots>, timeout=\<dots>)\<close> answers (an exception or a response),
  the flattening of markup by BeautifulSoup, Python's \<open>repr\<close> of a list of strings, the
  digit limit of the interpreter, what \<open>time.sleep\<close> does with a duration (it returns, or
  raises: \<open>OverflowError\<close> for a duration too large for the clock of the platform) and
  what \<open>df.to_csv\<close> does with a path and a table (it writes, or raises).
\<close>

record response =
  status_code :: nat
  response_text :: string

record env =
  requests_get :: "string \<Rightarrow> (string \<times> string) list \<Rightarrow> int \<Rightarrow> exn + response"
  soup_get_text :: "string \<Rightarrow> string"
  repr_list :: "string list \<Rightarrow> string"
  int_max_str_digits :: nat
  time_sleep :: "real \<Rightarrow> exn option"
  to_csv :: "string \<Rightarrow> dataframe \<Rightarrow> exn option"

section \<open>The page fetcher\<close>

definition headers :: "(string \<times> string) list" where
  "headers = [(''User-Agent'',
     ''Mozilla/5.0 (X11; Linux x86_64) '' @
     ''AppleWebKit/537.36 (KHTML, like Gecko) '' @
     ''Chrome/120.0 Safari/537.36'')]"

text \<open>\<open>r.raise_for_status()\<close>: an \<open>HTTPError\<close> for the client and server error codes.\<close>

definition raise_for_status :: "response \<Rightarrow> exn option" where
  "raise_for_status r =
     (if 400 \<le> status_code r \<and> status_code r < 600 then Some (HTTPError (status_code r)) else None)"

definition fetch_html :: "env \<Rightarrow> string \<Rightarrow> int \<Rightarrow> exn + string" where
  "fetch_html e url timeout =
     (case requests_get e url headers timeout of
        Inl err \<Rightarrow> Inl err
      | Inr r \<Rightarrow> (case raise_for_status r of Some err \<Rightarrow> Inl err | None \<Rightarrow> Inr (response_text r)))"

section \<open>The pipeline\<close>

text \<open>
  The parsed command line. \<open>--delay\<close> is a Python float: a finite one is the real number it
  stands for. Of the two others, \<open>inf\<close> is a duration that \<open>time.sleep\<close> refuses, as it
  refuses every duration too large for the clock, and \<open>max(0.0, nan)\<close> is \<open>0.0\<close>, the
  pause of a delay below zero.
\<close>

record args =
  input_path :: string
  output_path :: string
  url_col :: string
  delay :: real
  timeout :: int

text \<open>
  What a run does to the world, in order: a request, a pause that \<open>time.sleep\<close> has made,
  the writing of the table (\<open>df.to_csv(path, index=False)\<close>), the final message. The
  progress bar writes nothing the claims speak of and is left out; a run is not
  interrupted from outside.
\<close>

datatype event = Get string int | Sleep real | To_csv string dataframe | Print string

text \<open>How a run ends: \<open>main\<close> returns, or \<open>SystemExit\<close>, or another exception leaves it.\<close>

datatype outcome = Returned | SystemExit string | Raised exn

definition low_high_col :: string where
  "low_high_col = ''smogon_price_low_high''"

definition low_col :: string where
  "low_col = ''smogon_price_low''"

definition high_col :: string where
  "high_col = ''smogon_price_high''"

text \<open>The three assignments under \<open># Initialize columns\<close>.\<close>

definition init_columns :: "dataframe \<Rightarrow> dataframe" where
  "init_columns df =
     set_column (set_column (set_column df low_high_col (Str ''N/A'')) low_col NA) high_col NA"

text \<open>
  The head of the loop body, \<open>if pd.isna(url) or not str(url).strip(): continue\<close> and
  \<open>url = str(url).strip()\<close>: \<open>str\<close> raises, or the row is skipped (\<open>None\<close>), or the URL to
  request is the stripped string.
\<close>

definition url_string :: "nat \<Rightarrow> cell \<Rightarrow> exn + string option" where
  "url_string maxd url =
     (if isna url then Inr None
      else case py_str maxd url of
             Inl err \<Rightarrow> Inl err
           | Inr s \<Rightarrow> if strip s = [] then Inr None else Inr (Some (strip s)))"

text \<open>The f-string \<open>f"{low}-{high}"\<close>.\<close>

definition label :: "nat \<Rightarrow> int \<Rightarrow> int \<Rightarrow> exn + string" where
  "label maxd low high =
     (case py_str_int maxd low of
        Inl err \<Rightarrow> Inl err
      | Inr l \<Rightarrow> (case py_str_int maxd high of Inl err \<Rightarrow> Inl err | Inr h \<Rightarrow> Inr (l @ ''-'' @ h)))"

text \<open>
  The \<open>try\<close> statement of the loop body, on the table: whatever is raised inside is
  caught by \<open>except Exception: pass\<close> and leaves the table as it was (the label is formatted
  before the first assignment).
\<close>

definition try_block :: "env \<Rightarrow> args \<Rightarrow> nat \<Rightarrow> string \<Rightarrow> dataframe \<Rightarrow> dataframe" where
  "try_block e a i u df =
     (case fetch_html e u (timeout a) of
        Inl err \<Rightarrow> df
      | Inr html \<Rightarrow>
          (case extract_price_range_from_html (int_max_str_digits e) (soup_get_text e) html of
             Inl err \<Rightarrow> df
           | Inr None \<Rightarrow> df
           | Inr (Some (low, high)) \<Rightarrow>
               (case label (int_max_str_digits e) low high of
                  Inl err \<Rightarrow> df
                | Inr l \<Rightarrow>
                    set_at (set_at (set_at df i low_high_col (Str l)) i low_col (Num low))
                      i high_col (Num high))))"

text \<open>
  The body of the \<open>for\<close> loop on the table and the events so far; the first component is
  the exception that leaves the body, if any. \<open>str(url)\<close> and \<open>time.sleep\<close> stand outside the
  \<open>try\<close> statement: what they raise ends the loop.
\<close>

fun loop_body ::
    "env \<Rightarrow> args \<Rightarrow> nat \<Rightarrow> cell \<Rightarrow> dataframe \<times> event list \<Rightarrow> exn option \<times> dataframe \<times> event list" where
  "loop_body e a i url (df, evs) =
     (case url_string (int_max_str_digits e) url of
        Inl err \<Rightarrow> (Some err, df, evs)
      | Inr None \<Rightarrow> (None, df, evs)
      | Inr (Some u) \<Rightarrow>
          (let df' = try_block e a i u df in
           case time_sleep e (max 0 (delay a)) of
             Some err \<Rightarrow> (Some err, df', evs @ [Get u (timeout a)])
           | None \<Rightarrow> (None, df', evs @ [Get u (timeout a), Sleep (max 0 (delay a))])))"

declare loop_body.simps [simp del]

fun loop ::
    "env \<Rightarrow> args \<Rightarrow> (nat \<times> cell) list \<Rightarrow> dataframe \<times> event list \<Rightarrow> exn option \<times> dataframe \<times> event list" where
  "loop e a [] st = (None, st)"
| "loop e a ((i, url) # rest) st =
     (case loop_body e a i url st of
        (Some err, st') \<Rightarrow> (Some err, st')
      | (None, st') \<Rightarrow> loop e a rest st')"

text \<open>The initialisation of the columns and the loop over the rows.\<close>

definition process_rows :: "env \<Rightarrow> args \<Rightarrow> dataframe \<Rightarrow> exn option \<times> dataframe \<times> event list" where
  "process_rows e a df =
     (let df1 = init_columns df in loop e a (items df1 (url_col a)) (df1, []))"

text \<open>
  \<open>main\<close>, from the table that \<open>pd.read_csv(args.input)\<close> has loaded: how the run ends and
  what it did.
\<close>

definition main :: "env \<Rightarrow> args \<Rightarrow> dataframe \<Rightarrow> outcome \<times> event list" where
  "main e a df =
     (if url_col a \<notin> set (columns df) then
        (SystemExit (''URL column '' @ [CHR 0x27] @ url_col a @ [CHR 0x27] @
                     '' not found. Available columns: '' @ repr_list e (columns df)), [])
      else
        case process_rows e a df of
          (Some err, df2, evs) \<Rightarrow> (Raised err, evs)
        | (None, df2, evs) \<Rightarrow>
            (case to_csv e (output_path a) df2 of
               Some err \<Rightarrow> (Raised err, evs)
             | None \<Rightarrow>
                 (Returned, evs @ [To_csv (output_path a) df2, Print (''Wrote: '' @ output_path a)])))"

text \<open>
  The exit status of the process: \<open>SystemExit\<close> with a message, and an exception that
  nothing catches, exit with status 1.
\<close>

fun exit_code :: "outcome \<Rightarrow> nat" where
  "exit_code Returned = 0"
| "exit_code (SystemExit msg) = 1"
| "exit_code (Raised err) = 1"

section \<open>The vocabulary of the specification\<close>

text \<open>
  The two shapes as the specification words them. \<open>spec_range_at tx pre d1 d2\<close>: right after
  the prefix \<open>pre\<close> of the text stands the phrase (in any case), an integer \<open>d1\<close>, a hyphen, an
  integer \<open>d2\<close> and the word \<open>points\<close> (in any case), with white space allowed where the
  pattern allows it.
\<close>

definition ci_equal :: "string \<Rightarrow> string \<Rightarrow> bool" where
  "ci_equal p s = (map lower s = map lower p)"

definition spaces :: "string \<Rightarrow> bool" where
  "spaces w = list_all is_space w"

definition integer :: "string \<Rightarrow> bool" where
  "integer d = (d \<noteq> [] \<and> list_all is_digit d)"

definition spec_range_at :: "string \<Rightarrow> string \<Rightarrow> string \<Rightarrow> string \<Rightarrow> bool" where
  "spec_range_at tx pre d1 d2 =
     (\<exists>ph w1 w2 w3 w4 pts post.
        tx = pre @ ph @ w1 @ d1 @ w2 @ ''-'' @ w3 @ d2 @ w4 @ pts @ post \<and>
        ci_equal ''Price Range:'' ph \<and> spaces w1 \<and> integer d1 \<and> spaces w2 \<and>
        spaces w3 \<and> integer d2 \<and> spaces w4 \<and> ci_equal ''points'' pts)"

definition spec_single_at :: "string \<Rightarrow> string \<Rightarrow> string \<Rightarrow> bool" where
  "spec_single_at tx pre d =
     (\<exists>ph w1 w2 pts post.
        tx = pre @ ph @ w1 @ d @ w2 @ pts @ post \<and>
        ci_equal ''Price Range:'' ph \<and> spaces w1 \<and> integer d \<and> spaces w2 \<and>
        ci_equal ''points'' pts)"

definition spec_range_occurs :: "string \<Rightarrow> bool" where
  "spec_range_occurs tx = (\<exists>pre d1 d2. spec_range_at tx pre d1 d2)"

definition spec_single_occurs :: "string \<Rightarrow> bool" where
  "spec_single_occurs tx = (\<exists>pre d. spec_single_at tx pre d)"

text \<open>
  The row enricher of the specification, one row at a time: the URL the loop reads for
  row \<open>i\<close> (the cell of the URL column once the output columns are initialised), the
  three fields the turn of a row writes (\<open>None\<close>: the row is left as it is), the row after
  its turn, the events of its turn, and the exception that ends the run in its turn, if
  any.
\<close>

definition url_of :: "args \<Rightarrow> dataframe \<Rightarrow> nat \<Rightarrow> cell" where
  "url_of a df i = (rows (init_columns df) ! i) (url_col a)"

definition fields_of :: "env \<Rightarrow> args \<Rightarrow> string \<Rightarrow> (cell \<times> cell \<times> cell) option" where
  "fields_of e a u =
     (case fetch_html e u (timeout a) of
        Inl err \<Rightarrow> None
      | Inr html \<Rightarrow>
          (case extract_price_range_from_html (int_max_str_digits e) (soup_get_text e) html of
             Inl err \<Rightarrow> None
           | Inr None \<Rightarrow> None
           | Inr (Some (low, high)) \<Rightarrow>
               (case label (int_max_str_digits e) low high of
                  Inl err \<Rightarrow> None
                | Inr l \<Rightarrow> Some (Str l, Num low, Num high))))"

definition row_update :: "env \<Rightarrow> args \<Rightarrow> cell \<Rightarrow> (cell \<times> cell \<times> cell) option" where
  "row_update e a url =
     (case url_string (int_max_str_digits e) url of
        Inl err \<Rightarrow> None
      | Inr None \<Rightarrow> None
      | Inr (Some u) \<Rightarrow> fields_of e a u)"

definition row_apply :: "env \<Rightarrow> args \<Rightarrow> cell \<Rightarrow> row \<Rightarrow> row" where
  "row_apply e a url r =
     (case row_update e a url of
        None \<Rightarrow> r
      | Some (x, y, z) \<Rightarrow> r(low_high_col := x, low_col := y, high_col := z))"

definition row_events :: "env \<Rightarrow> args \<Rightarrow> cell \<Rightarrow> event list" where
  "row_events e a url =
     (case url_string (int_max_str_digits e) url of
        Inl err \<Rightarrow> []
      | Inr None \<Rightarrow> []
      | Inr (Some u) \<Rightarrow>
          (case time_sleep e (max 0 (delay a)) of
             Some err \<Rightarrow> [Get u (timeout a)]
           | None \<Rightarrow> [Get u (timeout a), Sleep (max 0 (delay a))]))"

definition row_raises :: "env \<Rightarrow> args \<Rightarrow> cell \<Rightarrow> exn option" where
  "row_raises e a url =
     (case url_string (int_max_str_digits e) url of
        Inl err \<Rightarrow> Some err
      | Inr None \<Rightarrow> None
      | Inr (Some u) \<Rightarrow> time_sleep e (max 0 (delay a)))"

definition enrich :: "env \<Rightarrow> args \<Rightarrow> dataframe \<Rightarrow> dataframe" where
  "enrich e a df = df\<lparr>rows := map (\<lambda>r. row_apply e a (r (url_col a)) r) (rows df)\<rparr>"

definition output_fields :: "row \<Rightarrow> cell \<times> cell \<times> cell" where
  "output_fields r = (r low_high_col, r low_col, r high_col)"

text \<open>Two tables that differ at most in the cells of the three output columns.\<close>

definition same_outside_outputs :: "dataframe \<Rightarrow> dataframe \<Rightarrow> bool" where
  "same_outside_outputs df' df =
     (columns df' = columns df \<and> length (rows df') = length (rows df) \<and>
      (\<forall>i c. i < length (rows df) \<and> c \<notin> {low_high_col, low_col, high_col} \<longrightarrow>
         (rows df' ! i) c = (rows df ! i) c))"

section \<open>Auxiliary notions for the proofs\<close>

text \<open>The characters a match of a list of pieces can begin with.\<close>

fun starts :: "bool \<Rightarrow> node list \<Rightarrow> char \<Rightarrow> bool" where
  "starts ic [] c = True"
| "starts ic (Literal [] # rs) c = starts ic rs c"
| "starts ic (Literal (p # ps) # rs) c = char_eq ic p c"
| "starts ic (Star cl # rs) c = (in_cls cl c \<or> starts ic rs c)"
| "starts ic (Group g cl # rs) c = in_cls cl c"

text \<open>A string that does not begin with a character of the class.\<close>

fun nstart :: "(char \<Rightarrow> bool) \<Rightarrow> string \<Rightarrow> bool" where
  "nstart P [] = True"
| "nstart P (c # cs) = (\<not> P c)"

section \<open>Sample runs\<close>

text \<open>
  A world with three pages, the default digit limit, a clock that refuses a pause of more
  than \<open>9223372036\<close> seconds and a disk that takes every file; a second world that differs
  on a page no row asks for; two tables and a command line.
\<close>

definition sample_env :: env where
  "sample_env =
     \<lparr>requests_get = (\<lambda>u h t.
        if u = ''https://example.test/draft'' then
          Inr \<lparr>status_code = 200, response_text = ''Price Range: 8-9 points''\<rparr>
        else if u = ''https://example.test/gone'' then
          Inr \<lparr>status_code = 404, response_text = ''Price Range: 8-9 points''\<rparr>
        else if u = ''https://example.test/plain'' then
          Inr \<lparr>status_code = 200, response_text = ''no price here''\<rparr>
        else Inl (RequestException ''timed out'')),
      soup_get_text = id,
      repr_list = concat,
      int_max_str_digits = 4300,
      time_sleep = (\<lambda>d. if 9223372036 < d then Some OverflowError else None),
      to_csv = (\<lambda>p d. None)\<rparr>"

definition sample_env2 :: env where
  "sample_env2 =
     sample_env\<lparr>requests_get := (\<lambda>u h t.
        if u = ''https://example.test/other'' then
          Inr \<lparr>status_code = 200, response_text = ''Price Range: 1-2 points''\<rparr>
        else requests_get sample_env u h t)\<rparr>"

definition sample_args :: args where
  "sample_args =
     \<lparr>input_path = ''in.csv'', output_path = ''out.csv'', url_col = ''smogon_draft_url'',
      delay = - 1, timeout = 25\<rparr>"

definition sample_frame :: dataframe where
  "sample_frame =
     \<lparr>columns = [''name'', ''smogon_draft_url''],
      rows = [(\<lambda>c. NA)(''name'' := Str ''a'', ''smogon_draft_url'' := Str '' https://example.test/draft ''),
              (\<lambda>c. NA)(''name'' := Str ''b''),
              (\<lambda>c. NA)(''name'' := Str ''c'', ''smogon_draft_url'' := Str ''https://example.test/gone''),
              (\<lambda>c. NA)(''name'' := Str ''d'', ''smogon_draft_url'' := Str ''https://example.test/plain'')]\<rparr>"


section \<open>Facts about the characters\<close>

lemma space_not_digit: "is_space c \<Longrightarrow> \<not> is_digit c"
  by (auto simp: is_space_def is_digit_def)

lemma lower_cases: "lower c = c \<or> lower c \<in> set lower_chars"
  unfolding lower_def by (auto split: option.splits dest!: map_of_SomeD set_zip_rightD)

lemma lower_eq_dash: "lower c = CHR ''-'' \<longleftrightarrow> c = CHR ''-''"
proof
  assume h: "lower c = CHR ''-''"
  have "CHR ''-'' \<notin> set lower_chars" by (simp add: lower_chars_def)
  with h lower_cases [of c] show "c = CHR ''-''" by auto
next
  assume "c = CHR ''-''"
  then show "lower c = CHR ''-''" by (simp add: lower_def upper_chars_def lower_chars_def)
qed

lemma space_not_p: "is_space c \<Longrightarrow> lower c \<noteq> CHR ''p''"
  by (auto simp: is_space_def lower_def upper_chars_def lower_chars_def)

lemma digit_not_p: "is_digit c \<Longrightarrow> lower c \<noteq> CHR ''p''"
  by (auto simp: is_digit_def lower_def upper_chars_def lower_chars_def)

lemma space_not_dash: "is_space c \<Longrightarrow> c \<noteq> CHR ''-''"
  by (auto simp: is_space_def)

lemma digit_not_dash: "is_digit c \<Longrightarrow> c \<noteq> CHR ''-''"
  by (auto simp: is_digit_def)

section \<open>Greedy repetition without backtracking\<close>

text \<open>
  In both patterns no piece can begin with a character of the class repeated just before
  it, so the longest run of the class is the only one that can lead to a match.
\<close>

lemma re_match_reject: "\<not> starts ic rs c \<Longrightarrow> re_match ic rs (c # cs) gs = None"
  by (induction ic rs c arbitrary: gs rule: starts.induct) auto

lemma greedy_commit:
  assumes "\<And>acc c cs. P c \<Longrightarrow> k acc (c # cs) = None"
  shows "greedy P acc s k = k (acc @ takeWhile P s) (dropWhile P s)"
  using assms by (induction s arbitrary: acc) (auto split: option.splits)

lemma re_match_Star:
  assumes "\<And>c. in_cls cl c \<Longrightarrow> \<not> starts ic rs c"
  shows "re_match ic (Star cl # rs) s gs = re_match ic rs (dropWhile (in_cls cl) s) gs"
  using assms by (simp add: greedy_commit re_match_reject)

lemma re_match_Group:
  assumes "\<And>c. in_cls cl c \<Longrightarrow> \<not> starts ic rs c"
  shows "re_match ic (Group g cl # rs) s gs =
    (if takeWhile (in_cls cl) s = [] then None
     else re_match ic rs (dropWhile (in_cls cl) s) ((g, takeWhile (in_cls cl) s) # gs))"
  using assms by (simp add: greedy_commit re_match_reject)

section \<open>Anchored matches and occurrences of the shapes\<close>

lemma lit_prefix_iff:
  "lit_prefix True l s \<longleftrightarrow> (\<exists>ph r. s = ph @ r \<and> ci_equal l ph)"
proof (induction l arbitrary: s)
  case Nil
  show ?case by (simp add: ci_equal_def)
next
  case (Cons p ps)
  show ?case
  proof (cases s)
    case Nil
    then show ?thesis by (simp add: ci_equal_def)
  next
    case (Cons c cs)
    show ?thesis
    proof
      assume "lit_prefix True (p # ps) s"
      with Cons Cons.IH [of cs] obtain ph r where "lower c = lower p" "cs = ph @ r" "ci_equal ps ph"
        by (auto simp: char_eq_def)
      then have "s = (c # ph) @ r \<and> ci_equal (p # ps) (c # ph)"
        using Cons by (simp add: ci_equal_def)
      then show "\<exists>ph r. s = ph @ r \<and> ci_equal (p # ps) ph" by blast
    next
      assume "\<exists>ph r. s = ph @ r \<and> ci_equal (p # ps) ph"
      then obtain ph r where h: "s = ph @ r" "ci_equal (p # ps) ph" by blast
      then obtain c' ph' where ph: "ph = c' # ph'" "lower c' = lower p" "ci_equal ps ph'"
        by (cases ph) (auto simp: ci_equal_def)
      with h Cons have "c = c'" "cs = ph' @ r" by auto
      with ph Cons.IH [of cs] Cons show "lit_prefix True (p # ps) s"
        by (auto simp: char_eq_def)
    qed
  qed
qed

lemma ci_equal_length: "ci_equal l ph \<Longrightarrow> length ph = length l"
  unfolding ci_equal_def by (metis length_map)

lemma lit_prefix_append: "ci_equal l ph \<Longrightarrow> lit_prefix True l (ph @ r)"
  using lit_prefix_iff by blast

lemma lit_prefix_split:
  "lit_prefix True l s \<Longrightarrow> ci_equal l (take (length l) s) \<and> s = take (length l) s @ drop (length l) s"
  using lit_prefix_iff [of l s] ci_equal_length by fastforce

lemma takeWhile_run: "list_all P w \<Longrightarrow> nstart P r \<Longrightarrow> takeWhile P (w @ r) = w"
  by (induction w) (cases r; simp)+

lemma dropWhile_run: "list_all P w \<Longrightarrow> nstart P r \<Longrightarrow> dropWhile P (w @ r) = r"
  by (induction w) (cases r; simp)+

lemma nstart_append:
  "list_all Q w \<Longrightarrow> (\<And>c. Q c \<Longrightarrow> \<not> P c) \<Longrightarrow> nstart P r \<Longrightarrow> nstart P (w @ r)"
  by (cases w) auto

lemma nstart_dropWhile: "nstart P (dropWhile P s)"
  by (induction s) auto

lemma in_cls_Space [simp]: "in_cls Space = is_space"
  by (rule ext) simp

lemma in_cls_Digit [simp]: "in_cls Digit = is_digit"
  by (rule ext) simp

lemma lower_dash [simp]: "lower CHR ''-'' = CHR ''-''"
  by (simp add: lower_def upper_chars_def lower_chars_def)

lemma lower_p [simp]: "lower CHR ''p'' = CHR ''p''"
  by (simp add: lower_def upper_chars_def lower_chars_def)

lemma not_char_eq_dash [simp]:
  "is_space c \<Longrightarrow> \<not> char_eq True CHR ''-'' c"
  "is_digit c \<Longrightarrow> \<not> char_eq True CHR ''-'' c"
  by (auto simp: char_eq_def lower_eq_dash dest: space_not_dash digit_not_dash)

lemma not_char_eq_p [simp]:
  "is_space c \<Longrightarrow> \<not> char_eq True CHR ''p'' c"
  "is_digit c \<Longrightarrow> \<not> char_eq True CHR ''p'' c"
  by (auto simp: char_eq_def dest: space_not_p digit_not_p)

lemma step_lit:
  "ci_equal l ph \<Longrightarrow> re_match True (Literal l # rs) (ph @ r) gs = re_match True rs r gs"
  by (simp add: lit_prefix_append ci_equal_length)

lemma step_star:
  assumes "\<And>c. in_cls cl c \<Longrightarrow> \<not> starts True rs c"
    and "list_all (in_cls cl) w" and "nstart (in_cls cl) r"
  shows "re_match True (Star cl # rs) (w @ r) gs = re_match True rs r gs"
proof -
  have "re_match True (Star cl # rs) (w @ r) gs = re_match True rs (dropWhile (in_cls cl) (w @ r)) gs"
    using assms(1) by (rule re_match_Star)
  then show ?thesis using assms(2,3) by (simp add: dropWhile_run)
qed

lemma step_group:
  assumes "\<And>c. in_cls cl c \<Longrightarrow> \<not> starts True rs c"
    and "w \<noteq> []" and "list_all (in_cls cl) w" and "nstart (in_cls cl) r"
  shows "re_match True (Group g cl # rs) (w @ r) gs = re_match True rs r ((g, w) # gs)"
proof -
  have "re_match True (Group g cl # rs) (w @ r) gs =
    (if takeWhile (in_cls cl) (w @ r) = [] then None
     else re_match True rs (dropWhile (in_cls cl) (w @ r)) ((g, takeWhile (in_cls cl) (w @ r)) # gs))"
    using assms(1) by (rule re_match_Group)
  then show ?thesis using assms(2,3,4) by (simp add: dropWhile_run takeWhile_run)
qed

lemma greedy_sound:
  "greedy P acc s k = Some m \<Longrightarrow> \<exists>w r. s = w @ r \<and> list_all P w \<and> k (acc @ w) r = Some m"
proof (induction s arbitrary: acc)
  case Nil
  then show ?case by simp
next
  case (Cons c cs)
  show ?case
  proof (cases "P c \<and> greedy P (acc @ [c]) cs k \<noteq> None")
    case True
    with Cons.prems have "greedy P (acc @ [c]) cs k = Some m" by auto
    from Cons.IH [OF this] obtain w r where "cs = w @ r" "list_all P w" "k (acc @ [c] @ w) r = Some m"
      by auto
    with True have "c # cs = (c # w) @ r \<and> list_all P (c # w) \<and> k (acc @ (c # w)) r = Some m"
      by simp
    then show ?thesis by blast
  next
    case False
    with Cons.prems have "k (acc @ []) (c # cs) = Some m" by (auto split: if_splits)
    then have "c # cs = [] @ (c # cs) \<and> list_all P [] \<and> k (acc @ []) (c # cs) = Some m" by simp
    then show ?thesis by blast
  qed
qed

lemma back_lit:
  "re_match True (Literal l # rs) s gs = Some m \<Longrightarrow>
   \<exists>ph r. s = ph @ r \<and> ci_equal l ph \<and> re_match True rs r gs = Some m"
proof -
  assume h: "re_match True (Literal l # rs) s gs = Some m"
  then have p: "lit_prefix True l s" and m: "re_match True rs (drop (length l) s) gs = Some m"
    by (auto split: if_splits)
  from lit_prefix_split [OF p] m show ?thesis by blast
qed

lemma back_star:
  "re_match ic (Star cl # rs) s gs = Some m \<Longrightarrow>
   \<exists>w r. s = w @ r \<and> list_all (in_cls cl) w \<and> re_match ic rs r gs = Some m"
  using greedy_sound [of "in_cls cl" "[]" s "\<lambda>_ rest. re_match ic rs rest gs" m] by simp

lemma back_group:
  "re_match ic (Group g cl # rs) s gs = Some m \<Longrightarrow>
   \<exists>w r. s = w @ r \<and> w \<noteq> [] \<and> list_all (in_cls cl) w \<and> re_match ic rs r ((g, w) # gs) = Some m"
  using greedy_sound [of "in_cls cl" "[]" s
      "\<lambda>taken rest. if taken = [] then None else re_match ic rs rest ((g, taken) # gs)" m]
  by (auto split: if_splits)

lemma ci_points_nstart:
  assumes "ci_equal ''points'' pts"
  shows "nstart is_space (pts @ r)" and "nstart is_digit (pts @ r)"
proof -
  from assms obtain c cs where "pts = c # cs" "lower c = CHR ''p''"
    by (cases pts) (auto simp: ci_equal_def lower_def upper_chars_def lower_chars_def)
  then show "nstart is_space (pts @ r)" and "nstart is_digit (pts @ r)"
    using space_not_p digit_not_p by auto
qed

lemma integer_nstart: "integer d \<Longrightarrow> nstart is_space (d @ r)"
  by (cases d) (auto simp: integer_def dest: space_not_digit)

lemma range_complete:
  assumes "spec_range_at s [] d1 d2"
  shows "re_match True (nodes PRICE_RANGE_RE) s [] = Some [(''high'', d2), (''low'', d1)]"
proof -
  from assms obtain ph w1 w2 w3 w4 pts post where
    s: "s = ph @ w1 @ d1 @ w2 @ ''-'' @ w3 @ d2 @ w4 @ pts @ post" and
    ph: "ci_equal ''Price Range:'' ph" and w1: "list_all is_space w1" and
    d1: "integer d1" and w2: "list_all is_space w2" and w3: "list_all is_space w3" and
    d2: "integer d2" and w4: "list_all is_space w4" and pts: "ci_equal ''points'' pts"
    unfolding spec_range_at_def spaces_def by auto
  have sd: "\<And>c. is_space c \<Longrightarrow> \<not> is_digit c" by (rule space_not_digit)
  have n_dash_s: "nstart is_space (''-'' @ r)" for r using space_not_dash by auto
  have n_dash_d: "nstart is_digit (''-'' @ r)" for r using digit_not_dash by auto
  have dash: "ci_equal ''-'' ''-''" by (simp add: ci_equal_def)
  have a: "nstart is_digit (w4 @ pts @ post)"
    using w4 sd ci_points_nstart(2) [OF pts] by (rule nstart_append)
  have b: "nstart is_digit (w2 @ ''-'' @ r)" for r
    using w2 sd n_dash_d by (rule nstart_append)
  have "re_match True (nodes PRICE_RANGE_RE) s [] =
        re_match True [Star Space, Group ''low'' Digit, Star Space, Literal ''-'',
           Star Space, Group ''high'' Digit, Star Space, Literal ''points'']
          (w1 @ d1 @ w2 @ ''-'' @ w3 @ d2 @ w4 @ pts @ post) []"
    unfolding PRICE_RANGE_RE_def s regex.sel by (rule step_lit [OF ph])
  also have "\<dots> = re_match True [Group ''low'' Digit, Star Space, Literal ''-'',
           Star Space, Group ''high'' Digit, Star Space, Literal ''points'']
          (d1 @ w2 @ ''-'' @ w3 @ d2 @ w4 @ pts @ post) []"
    using w1 integer_nstart [OF d1] by (intro step_star) (auto dest: space_not_digit)
  also have "\<dots> = re_match True [Star Space, Literal ''-'',
           Star Space, Group ''high'' Digit, Star Space, Literal ''points'']
          (w2 @ ''-'' @ w3 @ d2 @ w4 @ pts @ post) [(''low'', d1)]"
    using d1 b by (intro step_group) (auto simp: integer_def dest: space_not_digit)
  also have "\<dots> = re_match True [Literal ''-'',
           Star Space, Group ''high'' Digit, Star Space, Literal ''points'']
          (''-'' @ w3 @ d2 @ w4 @ pts @ post) [(''low'', d1)]"
    using w2 n_dash_s by (intro step_star) auto
  also have "\<dots> = re_match True [Star Space, Group ''high'' Digit, Star Space, Literal ''points'']
          (w3 @ d2 @ w4 @ pts @ post) [(''low'', d1)]"
    by (rule step_lit [OF dash])
  also have "\<dots> = re_match True [Group ''high'' Digit, Star Space, Literal ''points'']
          (d2 @ w4 @ pts @ post) [(''low'', d1)]"
    using w3 integer_nstart [OF d2] by (intro step_star) (auto dest: space_not_digit)
  also have "\<dots> = re_match True [Star Space, Literal ''points'']
          (w4 @ pts @ post) [(''high'', d2), (''low'', d1)]"
    using d2 a by (intro step_group) (auto simp: integer_def dest: space_not_digit)
  also have "\<dots> = re_match True [Literal ''points''] (pts @ post) [(''high'', d2), (''low'', d1)]"
    using w4 ci_points_nstart(1) [OF pts] by (intro step_star) auto
  also have "\<dots> = re_match True [] post [(''high'', d2), (''low'', d1)]"
    by (rule step_lit [OF pts])
  finally show ?thesis by simp
qed

lemma ci_equal_dash: "ci_equal ''-'' h \<Longrightarrow> h = ''-''"
  by (cases h) (auto simp: ci_equal_def lower_eq_dash)

lemma range_sound:
  assumes "re_match True (nodes PRICE_RANGE_RE) s [] = Some m"
  shows "\<exists>d1 d2. spec_range_at s [] d1 d2 \<and> m = [(''high'', d2), (''low'', d1)]"
proof -
  from assms have "re_match True [Literal ''Price Range:'', Star Space, Group ''low'' Digit,
      Star Space, Literal ''-'', Star Space, Group ''high'' Digit, Star Space,
      Literal ''points''] s [] = Some m"
    by (simp only: PRICE_RANGE_RE_def regex.sel)
  from back_lit [OF this] obtain ph t1 where s1: "s = ph @ t1" and ph: "ci_equal ''Price Range:'' ph"
    and m1: "re_match True [Star Space, Group ''low'' Digit,
      Star Space, Literal ''-'', Star Space, Group ''high'' Digit, Star Space,
      Literal ''points''] t1 [] = Some m" by blast
  from back_star [OF m1] obtain w1 t2 where s2: "t1 = w1 @ t2" and w1: "list_all is_space w1"
    and m2: "re_match True [Group ''low'' Digit,
      Star Space, Literal ''-'', Star Space, Group ''high'' Digit, Star Space,
      Literal ''points''] t2 [] = Some m" by auto
  from back_group [OF m2] obtain d1 t3 where s3: "t2 = d1 @ t3" and d1: "d1 \<noteq> []" "list_all is_digit d1"
    and m3: "re_match True [Star Space, Literal ''-'', Star Space, Group ''high'' Digit, Star Space,
      Literal ''points''] t3 [(''low'', d1)] = Some m" by auto
  from back_star [OF m3] obtain w2 t4 where s4: "t3 = w2 @ t4" and w2: "list_all is_space w2"
    and m4: "re_match True [Literal ''-'', Star Space, Group ''high'' Digit, Star Space,
      Literal ''points''] t4 [(''low'', d1)] = Some m" by auto
  from back_lit [OF m4] obtain h t5 where s5: "t4 = h @ t5" and h: "ci_equal ''-'' h"
    and m5: "re_match True [Star Space, Group ''high'' Digit, Star Space,
      Literal ''points''] t5 [(''low'', d1)] = Some m" by blast
  from back_star [OF m5] obtain w3 t6 where s6: "t5 = w3 @ t6" and w3: "list_all is_space w3"
    and m6: "re_match True [Group ''high'' Digit, Star Space,
      Literal ''points''] t6 [(''low'', d1)] = Some m" by auto
  from back_group [OF m6] obtain d2 t7 where s7: "t6 = d2 @ t7" and d2: "d2 \<noteq> []" "list_all is_digit d2"
    and m7: "re_match True [Star Space, Literal ''points''] t7 [(''high'', d2), (''low'', d1)] = Some m"
    by auto
  from back_star [OF m7] obtain w4 t8 where s8: "t7 = w4 @ t8" and w4: "list_all is_space w4"
    and m8: "re_match True [Literal ''points''] t8 [(''high'', d2), (''low'', d1)] = Some m" by auto
  from back_lit [OF m8] obtain pts post where s9: "t8 = pts @ post" and pts: "ci_equal ''points'' pts"
    and m9: "re_match True [] post [(''high'', d2), (''low'', d1)] = Some m" by blast
  have "s = [] @ ph @ w1 @ d1 @ w2 @ ''-'' @ w3 @ d2 @ w4 @ pts @ post"
    using s1 s2 s3 s4 s5 s6 s7 s8 s9 ci_equal_dash [OF h] by simp
  then have "spec_range_at s [] d1 d2"
    unfolding spec_range_at_def spaces_def integer_def
    using ph w1 d1 w2 w3 d2 w4 pts by blast
  moreover from m9 have "m = [(''high'', d2), (''low'', d1)]" by simp
  ultimately show ?thesis by blast
qed

lemma single_complete:
  assumes "spec_single_at s [] d"
  shows "re_match True (nodes PRICE_SINGLE_RE) s [] = Some [(''val'', d)]"
proof -
  from assms obtain ph w1 w2 pts post where
    s: "s = ph @ w1 @ d @ w2 @ pts @ post" and
    ph: "ci_equal ''Price Range:'' ph" and w1: "list_all is_space w1" and
    d: "integer d" and w2: "list_all is_space w2" and pts: "ci_equal ''points'' pts"
    unfolding spec_single_at_def spaces_def by auto
  have sd: "\<And>c. is_space c \<Longrightarrow> \<not> is_digit c" by (rule space_not_digit)
  have a: "nstart is_digit (w2 @ pts @ post)"
    using w2 sd ci_points_nstart(2) [OF pts] by (rule nstart_append)
  have "re_match True (nodes PRICE_SINGLE_RE) s [] =
        re_match True [Star Space, Group ''val'' Digit, Star Space, Literal ''points'']
          (w1 @ d @ w2 @ pts @ post) []"
    unfolding PRICE_SINGLE_RE_def s regex.sel by (rule step_lit [OF ph])
  also have "\<dots> = re_match True [Group ''val'' Digit, Star Space, Literal ''points'']
          (d @ w2 @ pts @ post) []"
    using w1 integer_nstart [OF d] by (intro step_star) (auto dest: space_not_digit)
  also have "\<dots> = re_match True [Star Space, Literal ''points''] (w2 @ pts @ post) [(''val'', d)]"
    using d a by (intro step_group) (auto simp: integer_def dest: space_not_digit)
  also have "\<dots> = re_match True [Literal ''points''] (pts @ post) [(''val'', d)]"
    using w2 ci_points_nstart(1) [OF pts] by (intro step_star) auto
  also have "\<dots> = re_match True [] post [(''val'', d)]"
    by (rule step_lit [OF pts])
  finally show ?thesis by simp
qed

lemma single_sound:
  assumes "re_match True (nodes PRICE_SINGLE_RE) s [] = Some m"
  shows "\<exists>d. spec_single_at s [] d \<and> m = [(''val'', d)]"
proof -
  from assms have "re_match True [Literal ''Price Range:'', Star Space, Group ''val'' Digit,
      Star Space, Literal ''points''] s [] = Some m"
    by (simp only: PRICE_SINGLE_RE_def regex.sel)
  from back_lit [OF this] obtain ph t1 where s1: "s = ph @ t1" and ph: "ci_equal ''Price Range:'' ph"
    and m1: "re_match True [Star Space, Group ''val'' Digit, Star Space,
      Literal ''points''] t1 [] = Some m" by blast
  from back_star [OF m1] obtain w1 t2 where s2: "t1 = w1 @ t2" and w1: "list_all is_space w1"
    and m2: "re_match True [Group ''val'' Digit, Star Space, Literal ''points''] t2 [] = Some m"
    by auto
  from back_group [OF m2] obtain d t3 where s3: "t2 = d @ t3" and d: "d \<noteq> []" "list_all is_digit d"
    and m3: "re_match True [Star Space, Literal ''points''] t3 [(''val'', d)] = Some m" by auto
  from back_star [OF m3] obtain w2 t4 where s4: "t3 = w2 @ t4" and w2: "list_all is_space w2"
    and m4: "re_match True [Literal ''points''] t4 [(''val'', d)] = Some m" by auto
  from back_lit [OF m4] obtain pts post where s5: "t4 = pts @ post" and pts: "ci_equal ''points'' pts"
    and m5: "re_match True [] post [(''val'', d)] = Some m" by blast
  have "s = [] @ ph @ w1 @ d @ w2 @ pts @ post"
    using s1 s2 s3 s4 s5 by simp
  then have "spec_single_at s [] d"
    unfolding spec_single_at_def spaces_def integer_def
    using ph w1 d w2 pts by blast
  moreover from m5 have "m = [(''val'', d)]" by simp
  ultimately show ?thesis by blast
qed

lemma range_at_shift: "spec_range_at (pre @ s) pre d1 d2 \<longleftrightarrow> spec_range_at s [] d1 d2"
  unfolding spec_range_at_def by simp

lemma range_at_prefix: "spec_range_at text pre d1 d2 \<Longrightarrow> \<exists>s. text = pre @ s"
  unfolding spec_range_at_def by auto

lemma single_at_shift: "spec_single_at (pre @ s) pre d \<longleftrightarrow> spec_single_at s [] d"
  unfolding spec_single_at_def by simp

lemma single_at_prefix: "spec_single_at text pre d \<Longrightarrow> \<exists>s. text = pre @ s"
  unfolding spec_single_at_def by auto

section \<open>The leftmost match\<close>

lemma search_here:
  "re_match (ignorecase re) (nodes re) s [] = Some m \<Longrightarrow> search re s = Some m"
  by (cases s) simp_all

lemma search_skip:
  "(\<And>p q. pre = p @ q \<Longrightarrow> q \<noteq> [] \<Longrightarrow> re_match (ignorecase re) (nodes re) (q @ s) [] = None)
   \<Longrightarrow> search re (pre @ s) = search re s"
proof (induction pre)
  case Nil
  show ?case by simp
next
  case (Cons c pre)
  have "re_match (ignorecase re) (nodes re) ((c # pre) @ s) [] = None"
    using Cons.prems [of "[]" "c # pre"] by simp
  moreover have "search re (pre @ s) = search re s"
  proof (rule Cons.IH)
    fix p q assume "pre = p @ q" "q \<noteq> []"
    then show "re_match (ignorecase re) (nodes re) (q @ s) [] = None"
      using Cons.prems [of "c # p" q] by simp
  qed
  ultimately show ?case by simp
qed

lemma search_SomeD:
  "search re text = Some m \<Longrightarrow>
   \<exists>pre s. text = pre @ s \<and> re_match (ignorecase re) (nodes re) s [] = Some m"
proof (induction "text")
  case Nil
  then show ?case by simp
next
  case (Cons c cs)
  show ?case
  proof (cases "re_match (ignorecase re) (nodes re) (c # cs) []")
    case None
    with Cons.prems have "search re cs = Some m" by simp
    from Cons.IH [OF this] obtain pre s where "cs = pre @ s"
      "re_match (ignorecase re) (nodes re) s [] = Some m" by blast
    then have "c # cs = (c # pre) @ s \<and> re_match (ignorecase re) (nodes re) s [] = Some m" by simp
    then show ?thesis by blast
  next
    case (Some m')
    with Cons.prems have "c # cs = [] @ (c # cs) \<and> re_match (ignorecase re) (nodes re) (c # cs) [] = Some m"
      by simp
    then show ?thesis by blast
  qed
qed

lemma search_NoneD:
  "search re (pre @ s) = None \<Longrightarrow> re_match (ignorecase re) (nodes re) s [] = None"
proof (induction pre)
  case Nil
  then show ?case by (cases s) (auto split: option.splits)
next
  case (Cons c pre)
  then show ?case by (auto split: option.splits)
qed

lemma search_range_SomeD:
  assumes "search PRICE_RANGE_RE tx = Some m"
  shows "\<exists>pre d1 d2. spec_range_at tx pre d1 d2 \<and> m = [(''high'', d2), (''low'', d1)]"
proof -
  from search_SomeD [OF assms] obtain pre s where t: "tx = pre @ s"
    and m: "re_match True (nodes PRICE_RANGE_RE) s [] = Some m"
    by (auto simp: PRICE_RANGE_RE_def)
  from range_sound [OF m] obtain d1 d2 where "spec_range_at s [] d1 d2" "m = [(''high'', d2), (''low'', d1)]"
    by blast
  with t show ?thesis using range_at_shift by blast
qed

lemma search_range_None_iff: "search PRICE_RANGE_RE tx = None \<longleftrightarrow> \<not> spec_range_occurs tx"
proof
  assume n: "search PRICE_RANGE_RE tx = None"
  show "\<not> spec_range_occurs tx"
  proof
    assume "spec_range_occurs tx"
    then obtain pre d1 d2 where r: "spec_range_at tx pre d1 d2" unfolding spec_range_occurs_def by blast
    then obtain s where t: "tx = pre @ s" using range_at_prefix by blast
    with r have "spec_range_at s [] d1 d2" by (simp add: range_at_shift)
    from range_complete [OF this] search_NoneD [of PRICE_RANGE_RE pre s] n t
    show False by (simp add: PRICE_RANGE_RE_def)
  qed
next
  assume "\<not> spec_range_occurs tx"
  then show "search PRICE_RANGE_RE tx = None"
    using search_range_SomeD [of tx] unfolding spec_range_occurs_def
    by (cases "search PRICE_RANGE_RE tx") auto
qed

lemma search_single_SomeD:
  assumes "search PRICE_SINGLE_RE tx = Some m"
  shows "\<exists>pre d. spec_single_at tx pre d \<and> m = [(''val'', d)]"
proof -
  from search_SomeD [OF assms] obtain pre s where t: "tx = pre @ s"
    and m: "re_match True (nodes PRICE_SINGLE_RE) s [] = Some m"
    by (auto simp: PRICE_SINGLE_RE_def)
  from single_sound [OF m] obtain d where "spec_single_at s [] d" "m = [(''val'', d)]"
    by blast
  with t show ?thesis using single_at_shift by blast
qed

lemma search_single_None_iff: "search PRICE_SINGLE_RE tx = None \<longleftrightarrow> \<not> spec_single_occurs tx"
proof
  assume n: "search PRICE_SINGLE_RE tx = None"
  show "\<not> spec_single_occurs tx"
  proof
    assume "spec_single_occurs tx"
    then obtain pre d where r: "spec_single_at tx pre d" unfolding spec_single_occurs_def by blast
    then obtain s where t: "tx = pre @ s" using single_at_prefix by blast
    with r have "spec_single_at s [] d" by (simp add: single_at_shift)
    from single_complete [OF this] search_NoneD [of PRICE_SINGLE_RE pre s] n t
    show False by (simp add: PRICE_SINGLE_RE_def)
  qed
next
  assume "\<not> spec_single_occurs tx"
  then show "search PRICE_SINGLE_RE tx = None"
    using search_single_SomeD [of tx] unfolding spec_single_occurs_def
    by (cases "search PRICE_SINGLE_RE tx") auto
qed

lemma search_first_range:
  assumes r: "spec_range_at tx pre d1 d2"
    and first: "\<And>pre' e1 e2. spec_range_at tx pre' e1 e2 \<Longrightarrow> length pre \<le> length pre'"
  shows "search PRICE_RANGE_RE tx = Some [(''high'', d2), (''low'', d1)]"
proof -
  from r obtain s where t: "tx = pre @ s" using range_at_prefix by blast
  with r have "spec_range_at s [] d1 d2" by (simp add: range_at_shift)
  from range_complete [OF this]
  have here: "re_match (ignorecase PRICE_RANGE_RE) (nodes PRICE_RANGE_RE) s [] = Some [(''high'', d2), (''low'', d1)]"
    by (simp add: PRICE_RANGE_RE_def)
  have "search PRICE_RANGE_RE (pre @ s) = search PRICE_RANGE_RE s"
  proof (rule search_skip)
    fix p q assume pq: "pre = p @ q" "q \<noteq> []"
    show "re_match (ignorecase PRICE_RANGE_RE) (nodes PRICE_RANGE_RE) (q @ s) [] = None"
    proof (rule ccontr)
      assume "re_match (ignorecase PRICE_RANGE_RE) (nodes PRICE_RANGE_RE) (q @ s) [] \<noteq> None"
      then obtain m where "re_match True (nodes PRICE_RANGE_RE) (q @ s) [] = Some m"
        by (auto simp: PRICE_RANGE_RE_def)
      from range_sound [OF this] obtain e1 e2 where "spec_range_at (q @ s) [] e1 e2" by blast
      then have "spec_range_at (p @ q @ s) p e1 e2" by (simp add: range_at_shift)
      with t pq have "spec_range_at tx p e1 e2" by simp
      from first [OF this] pq show False by simp
    qed
  qed
  with t search_here [OF here] show ?thesis by simp
qed

lemma search_first_single:
  assumes r: "spec_single_at tx pre d"
    and first: "\<And>pre' e. spec_single_at tx pre' e \<Longrightarrow> length pre \<le> length pre'"
  shows "search PRICE_SINGLE_RE tx = Some [(''val'', d)]"
proof -
  from r obtain s where t: "tx = pre @ s" using single_at_prefix by blast
  with r have "spec_single_at s [] d" by (simp add: single_at_shift)
  from single_complete [OF this]
  have here: "re_match (ignorecase PRICE_SINGLE_RE) (nodes PRICE_SINGLE_RE) s [] = Some [(''val'', d)]"
    by (simp add: PRICE_SINGLE_RE_def)
  have "search PRICE_SINGLE_RE (pre @ s) = search PRICE_SINGLE_RE s"
  proof (rule search_skip)
    fix p q assume pq: "pre = p @ q" "q \<noteq> []"
    show "re_match (ignorecase PRICE_SINGLE_RE) (nodes PRICE_SINGLE_RE) (q @ s) [] = None"
    proof (rule ccontr)
      assume "re_match (ignorecase PRICE_SINGLE_RE) (nodes PRICE_SINGLE_RE) (q @ s) [] \<noteq> None"
      then obtain m where "re_match True (nodes PRICE_SINGLE_RE) (q @ s) [] = Some m"
        by (auto simp: PRICE_SINGLE_RE_def)
      from single_sound [OF this] obtain e where "spec_single_at (q @ s) [] e" by blast
      then have "spec_single_at (p @ q @ s) p e" by (simp add: single_at_shift)
      with t pq have "spec_single_at tx p e" by simp
      from first [OF this] pq show False by simp
    qed
  qed
  with t search_here [OF here] show ?thesis by simp
qed

lemma first_range_exists:
  assumes "spec_range_occurs tx"
  shows "\<exists>pre d1 d2. spec_range_at tx pre d1 d2 \<and>
           (\<forall>pre' e1 e2. spec_range_at tx pre' e1 e2 \<longrightarrow> length pre \<le> length pre')"
proof -
  from assms obtain p0 a0 b0 where "spec_range_at tx p0 a0 b0"
    unfolding spec_range_occurs_def by blast
  then have "(\<lambda>(p, a, b). spec_range_at tx p a b) (p0, a0, b0)" by simp
  from ex_has_least_nat [of "\<lambda>(p, a, b). spec_range_at tx p a b" "(p0, a0, b0)" "\<lambda>(p, a, b). length p", OF this]
  obtain x where x: "(\<lambda>(p, a, b). spec_range_at tx p a b) x"
    "\<forall>y. (\<lambda>(p, a, b). spec_range_at tx p a b) y \<longrightarrow> (\<lambda>(p, a, b). length p) x \<le> (\<lambda>(p, a, b). length p) y"
    by blast
  obtain pre d1 d2 where xe: "x = (pre, d1, d2)" by (cases x) auto
  have "spec_range_at tx pre d1 d2" using x(1) xe by simp
  moreover have "\<forall>pre' e1 e2. spec_range_at tx pre' e1 e2 \<longrightarrow> length pre \<le> length pre'"
  proof (intro allI impI)
    fix pre' e1 e2 assume "spec_range_at tx pre' e1 e2"
    with x(2) [rule_format, of "(pre', e1, e2)"] xe show "length pre \<le> length pre'" by simp
  qed
  ultimately show ?thesis by blast
qed

lemma first_single_exists:
  assumes "spec_single_occurs tx"
  shows "\<exists>pre d. spec_single_at tx pre d \<and>
           (\<forall>pre' e. spec_single_at tx pre' e \<longrightarrow> length pre \<le> length pre')"
proof -
  from assms obtain p0 a0 where "spec_single_at tx p0 a0"
    unfolding spec_single_occurs_def by blast
  then have "(\<lambda>(p, a). spec_single_at tx p a) (p0, a0)" by simp
  from ex_has_least_nat [of "\<lambda>(p, a). spec_single_at tx p a" "(p0, a0)" "\<lambda>(p, a). length p", OF this]
  obtain x where x: "(\<lambda>(p, a). spec_single_at tx p a) x"
    "\<forall>y. (\<lambda>(p, a). spec_single_at tx p a) y \<longrightarrow> (\<lambda>(p, a). length p) x \<le> (\<lambda>(p, a). length p) y"
    by blast
  obtain pre d where xe: "x = (pre, d)" by (cases x) auto
  have "spec_single_at tx pre d" using x(1) xe by simp
  moreover have "\<forall>pre' e. spec_single_at tx pre' e \<longrightarrow> length pre \<le> length pre'"
  proof (intro allI impI)
    fix pre' e assume "spec_single_at tx pre' e"
    with x(2) [rule_format, of "(pre', e)"] xe show "length pre \<le> length pre'" by simp
  qed
  ultimately show ?thesis by blast
qed

lemma not_range_occursI: "search PRICE_RANGE_RE tx = None \<Longrightarrow> \<not> spec_range_occurs (id tx)"
  by (simp add: search_range_None_iff)

lemma not_single_occursI: "search PRICE_SINGLE_RE tx = None \<Longrightarrow> \<not> spec_single_occurs (id tx)"
  by (simp add: search_single_None_iff)

lemma single_occursI: "search PRICE_SINGLE_RE tx \<noteq> None \<Longrightarrow> spec_single_occurs (id tx)"
  using search_single_None_iff [of tx] by simp

lemma sample_range_late:
  "spec_range_at ''Price Range: 5 points, Price Range: 8-9 points'' ''Price Range: 5 points, '' ''8'' ''9''"
  unfolding spec_range_at_def
  apply (rule exI [of _ "''Price Range:''"])
  apply (rule exI [of _ "'' ''"])
  apply (rule exI [of _ "[]"])
  apply (rule exI [of _ "[]"])
  apply (rule exI [of _ "'' ''"])
  apply (rule exI [of _ "''points''"])
  apply (rule exI [of _ "[]"])
  apply (simp add: ci_equal_def spaces_def integer_def is_space_def is_digit_def)
  done

lemma sample_single_early:
  "spec_single_at ''Price Range: 5 points, Price Range: 8-9 points'' [] ''5''"
  unfolding spec_single_at_def
  apply (rule exI [of _ "''Price Range:''"])
  apply (rule exI [of _ "'' ''"])
  apply (rule exI [of _ "'' ''"])
  apply (rule exI [of _ "''points''"])
  apply (rule exI [of _ "'', Price Range: 8-9 points''"])
  apply (simp add: ci_equal_def spaces_def integer_def is_space_def is_digit_def)
  done

section \<open>Decimal rendering\<close>

lemma digit_val_digit_char: "d < 10 \<Longrightarrow> digit_val (digit_char d) = int d"
proof -
  assume "d < 10"
  then have "d \<in> {0, 1, 2, 3, 4, 5, 6, 7, 8, 9}" by auto
  then show ?thesis
    by (elim insertE) (simp_all add: digit_char_def digit_val_def)
qed

lemma int_of_digits_snoc: "int_of_digits (xs @ [c]) = 10 * int_of_digits xs + digit_val c"
  by (simp add: int_of_digits_def)

lemma int_of_digits_digits_of: "int_of_digits (digits_of n) = int n"
proof (induction n rule: digits_of.induct)
  case (1 n)
  show ?case
  proof (cases "n < 10")
    case True
    then show ?thesis
      by (subst digits_of.simps) (simp add: int_of_digits_def digit_val_digit_char)
  next
    case False
    have "int n = 10 * int (n div 10) + int (n mod 10)"
      by (metis mult_div_mod_eq of_nat_add of_nat_mult of_nat_numeral)
    with False "1.IH" show ?thesis
      by (subst digits_of.simps) (simp add: int_of_digits_snoc digit_val_digit_char)
  qed
qed

lemma int_of_digits_str_int: "0 \<le> n \<Longrightarrow> int_of_digits (str_int n) = n"
  by (simp add: str_int_def int_of_digits_digits_of)


section \<open>The extractor on the two shapes\<close>

lemma extract_range:
  "search PRICE_RANGE_RE (get_text html) = Some [(''high'', d2), (''low'', d1)] \<Longrightarrow>
   extract_price_range_from_html maxd get_text html =
     (if too_long maxd (length d1) \<or> too_long maxd (length d2) then Inl ValueError
      else Inr (Some (int_of_digits d1, int_of_digits d2)))"
  by (simp add: extract_price_range_from_html_def group_def py_int_def)

lemma extract_single:
  "search PRICE_RANGE_RE (get_text html) = None \<Longrightarrow>
   search PRICE_SINGLE_RE (get_text html) = Some [(''val'', d)] \<Longrightarrow>
   extract_price_range_from_html maxd get_text html =
     (if too_long maxd (length d) then Inl ValueError
      else Inr (Some (int_of_digits d, int_of_digits d)))"
  by (simp add: extract_price_range_from_html_def group_def py_int_def)

lemma extract_none:
  "search PRICE_RANGE_RE (get_text html) = None \<Longrightarrow>
   search PRICE_SINGLE_RE (get_text html) = None \<Longrightarrow>
   extract_price_range_from_html maxd get_text html = Inr None"
  by (simp add: extract_price_range_from_html_def)

lemma extract_SomeD:
  assumes "extract_price_range_from_html maxd get_text html = Inr (Some (low, high))"
  shows "(\<exists>m. search PRICE_RANGE_RE (get_text html) = Some m \<and>
            low = int_of_digits (group m ''low'') \<and> high = int_of_digits (group m ''high'')) \<or>
         (search PRICE_RANGE_RE (get_text html) = None \<and> low = high)"
  using assms
  by (auto simp: extract_price_range_from_html_def Let_def py_int_def
      split: option.splits sum.splits if_splits)

lemma extract_first_range_aux:
  assumes "spec_range_at (get_text html) pre d1 d2"
    and "\<forall>pre' e1 e2. spec_range_at (get_text html) pre' e1 e2 \<longrightarrow> length pre \<le> length pre'"
  shows "extract_price_range_from_html maxd get_text html =
     (if too_long maxd (length d1) \<or> too_long maxd (length d2) then Inl ValueError
      else Inr (Some (int_of_digits d1, int_of_digits d2)))"
proof -
  have "search PRICE_RANGE_RE (get_text html) = Some [(''high'', d2), (''low'', d1)]"
    using assms by (intro search_first_range) auto
  then show ?thesis by (rule extract_range)
qed

lemma extract_first_single_aux:
  assumes "\<not> spec_range_occurs (get_text html)"
    and "spec_single_at (get_text html) pre d"
    and "\<forall>pre' e. spec_single_at (get_text html) pre' e \<longrightarrow> length pre \<le> length pre'"
  shows "extract_price_range_from_html maxd get_text html =
     (if too_long maxd (length d) then Inl ValueError
      else Inr (Some (int_of_digits d, int_of_digits d)))"
proof -
  have n: "search PRICE_RANGE_RE (get_text html) = None"
    using assms(1) by (simp add: search_range_None_iff)
  have "search PRICE_SINGLE_RE (get_text html) = Some [(''val'', d)]"
    using assms(2,3) by (intro search_first_single) auto
  with n show ?thesis by (rule extract_single)
qed

lemma range_has_dash: "spec_range_at tx pre d1 d2 \<Longrightarrow> CHR ''-'' \<in> set tx"
  unfolding spec_range_at_def by auto

lemma digits_replicate: "0 < n \<Longrightarrow> is_digit c \<Longrightarrow> integer (replicate n c)"
  by (auto simp: integer_def list_all_iff)

lemma sample_range_at:
  "spec_range_at ''pRICE rANGE:  08 -  9   POINTS!'' [] ''08'' ''9''"
  unfolding spec_range_at_def
  apply (rule exI [of _ "''pRICE rANGE:''"])
  apply (rule exI [of _ "''  ''"])
  apply (rule exI [of _ "'' ''"])
  apply (rule exI [of _ "''  ''"])
  apply (rule exI [of _ "''   ''"])
  apply (rule exI [of _ "''POINTS''"])
  apply (rule exI [of _ "''!''"])
  apply (simp add: ci_equal_def spaces_def integer_def is_space_def is_digit_def lower_def
      upper_chars_def lower_chars_def)
  done

lemma int_of_digits_08: "int_of_digits ''08'' = 8" "int_of_digits ''9'' = 9"
  by (simp_all add: int_of_digits_def digit_val_def)

lemma long_range_at:
  "spec_range_at (''Price Range: '' @ replicate 4301 CHR ''0'' @ ''-9 points'') []
     (replicate 4301 CHR ''0'') ''9''"
  unfolding spec_range_at_def
  apply (rule exI [of _ "''Price Range:''"])
  apply (rule exI [of _ "'' ''"])
  apply (rule exI [of _ "[]"])
  apply (rule exI [of _ "[]"])
  apply (rule exI [of _ "'' ''"])
  apply (rule exI [of _ "''points''"])
  apply (rule exI [of _ "[]"])
  apply (simp add: ci_equal_def spaces_def digits_replicate is_space_def is_digit_def)
  apply (simp add: integer_def is_digit_def)
  done

lemma long_single_at:
  "spec_single_at (''Price Range: '' @ replicate 4301 CHR ''7'' @ '' points'') []
     (replicate 4301 CHR ''7'')"
  unfolding spec_single_at_def
  apply (rule exI [of _ "''Price Range:''"])
  apply (rule exI [of _ "'' ''"])
  apply (rule exI [of _ "'' ''"])
  apply (rule exI [of _ "''points''"])
  apply (rule exI [of _ "[]"])
  apply (simp add: ci_equal_def spaces_def digits_replicate is_space_def is_digit_def)
  done

lemma long_single_no_range:
  "\<not> spec_range_occurs (''Price Range: '' @ replicate 4301 CHR ''7'' @ '' points'')"
proof
  assume "spec_range_occurs (''Price Range: '' @ replicate 4301 CHR ''7'' @ '' points'')"
  then obtain pre d1 d2 where
    "spec_range_at (''Price Range: '' @ replicate 4301 CHR ''7'' @ '' points'') pre d1 d2"
    unfolding spec_range_occurs_def by blast
  from range_has_dash [OF this] show False by simp
qed

lemma sample_both_value:
  "extract_price_range_from_html 4300 id ''Price Range: 5 points, Price Range: 8-9 points''
     = Inr (Some (8, 9))"
  by code_simp

lemma sample_single_searches:
  "search PRICE_RANGE_RE ''Price Range: 5 points'' = None"
  "search PRICE_SINGLE_RE ''Price Range: 5 points'' \<noteq> None"
  "extract_price_range_from_html 4300 id ''Price Range: 5 points'' = Inr (Some (5, 5))"
  by code_simp+

lemma sample_none_searches:
  "search PRICE_RANGE_RE ''no price here'' = None"
  "search PRICE_SINGLE_RE ''no price here'' = None"
  by code_simp+

section \<open>The loop, row by row\<close>

lemma fetch_html_raises:
  "requests_get e u headers t = Inl err \<Longrightarrow> fetch_html e u t = Inl err"
  "requests_get e u headers t = Inr r \<Longrightarrow> 400 \<le> status_code r \<Longrightarrow> status_code r < 600 \<Longrightarrow>
   fetch_html e u t = Inl (HTTPError (status_code r))"
  by (simp_all add: fetch_html_def raise_for_status_def)

lemma output_cols_distinct [simp]:
  "low_high_col \<noteq> low_col" "low_high_col \<noteq> high_col" "low_col \<noteq> high_col"
  "low_col \<noteq> low_high_col" "high_col \<noteq> low_high_col" "high_col \<noteq> low_col"
  by (simp_all add: low_high_col_def low_col_def high_col_def)

lemma rows_init_columns:
  "rows (init_columns df) = map (\<lambda>r. r(low_high_col := Str ''N/A'', low_col := NA, high_col := NA)) (rows df)"
  by (simp add: init_columns_def set_column_def comp_def)

lemma columns_init_columns:
  "columns (init_columns df) = columns df @ filter (\<lambda>c. c \<notin> set (columns df)) [low_high_col, low_col, high_col]"
  by (simp add: init_columns_def set_column_def low_high_col_def low_col_def high_col_def)

lemma init_columns_eq:
  "init_columns df =
     \<lparr>columns = columns df @ filter (\<lambda>c. c \<notin> set (columns df)) [low_high_col, low_col, high_col],
      rows = map (\<lambda>r. r(low_high_col := Str ''N/A'', low_col := NA, high_col := NA)) (rows df)\<rparr>"
  by (simp add: init_columns_def set_column_def comp_def)

lemma length_rows_init [simp]: "length (rows (init_columns df)) = length (rows df)"
  by (simp add: rows_init_columns)

lemma init_row_fields:
  "i < length (rows df) \<Longrightarrow> output_fields (rows (init_columns df) ! i) = (Str ''N/A'', NA, NA)"
  by (simp add: rows_init_columns output_fields_def)

lemma init_row_frame:
  "i < length (rows df) \<Longrightarrow> c \<notin> {low_high_col, low_col, high_col} \<Longrightarrow>
   (rows (init_columns df) ! i) c = (rows df ! i) c"
  by (simp add: rows_init_columns)

lemma url_of_input:
  "i < length (rows df) \<Longrightarrow> url_col a \<notin> {low_high_col, low_col, high_col} \<Longrightarrow>
   url_of a df i = (rows df ! i) (url_col a)"
  by (simp add: url_of_def init_row_frame)

lemma row_apply_frame:
  "c \<notin> {low_high_col, low_col, high_col} \<Longrightarrow> row_apply e a url r c = r c"
  by (auto simp: row_apply_def split: option.splits)

lemma row_apply_fields:
  "output_fields (row_apply e a url r) =
     (case row_update e a url of None \<Rightarrow> output_fields r | Some t \<Rightarrow> t)"
  by (auto simp: row_apply_def output_fields_def split: option.splits)

lemma try_block_eq:
  assumes "i < length (rows df)"
  shows "try_block e a i u df =
    df\<lparr>rows := (rows df)[i := (case fields_of e a u of
                                 None \<Rightarrow> rows df ! i
                               | Some (x, y, z) \<Rightarrow> (rows df ! i)(low_high_col := x, low_col := y, high_col := z))]\<rparr>"
  using assms
  by (auto simp: try_block_def fields_of_def set_at_def split: sum.splits option.splits)

lemma loop_body_eq:
  assumes "i < length (rows df)"
  shows "loop_body e a i url (df, evs) =
    (row_raises e a url,
     df\<lparr>rows := (rows df)[i := row_apply e a url (rows df ! i)]\<rparr>,
     evs @ row_events e a url)"
  using assms
  by (auto simp: loop_body.simps row_raises_def row_apply_def row_update_def row_events_def
      try_block_eq Let_def split: sum.splits option.splits)

lemma loop_complete:
  "length pre = k \<Longrightarrow> length us = length rs \<Longrightarrow> rows df = pre @ rs \<Longrightarrow>
   \<forall>u \<in> set us. row_raises e a u = None \<Longrightarrow>
   loop e a (enumerate k us) (df, evs) =
     (None, df\<lparr>rows := pre @ map (\<lambda>(u, r). row_apply e a u r) (zip us rs)\<rparr>,
      evs @ concat (map (row_events e a) us))"
proof (induction us arbitrary: k pre rs df evs)
  case Nil
  then show ?case by simp
next
  case (Cons u us)
  then obtain r rs' where rs: "rs = r # rs'" by (cases rs) auto
  let ?df = "df\<lparr>rows := (pre @ [row_apply e a u r]) @ rs'\<rparr>"
  have k: "k < length (rows df)" using Cons.prems rs by simp
  have body: "loop_body e a k u (df, evs) = (None, ?df, evs @ row_events e a u)"
    using Cons.prems rs by (simp add: loop_body_eq [OF k] list_update_append nth_append)
  have "loop e a (enumerate (Suc k) us) (?df, evs @ row_events e a u) =
     (None, ?df\<lparr>rows := (pre @ [row_apply e a u r]) @ map (\<lambda>(u, r). row_apply e a u r) (zip us rs')\<rparr>,
      (evs @ row_events e a u) @ concat (map (row_events e a) us))"
    using Cons.prems rs by (intro Cons.IH) auto
  with body rs show ?case by simp
qed

lemma loop_any:
  "length pre = k \<Longrightarrow> length us = length rs \<Longrightarrow> rows df = pre @ rs \<Longrightarrow>
   loop e a (enumerate k us) (df, evs) = (x, df', evs') \<Longrightarrow>
   columns df' = columns df \<and>
   (\<exists>rs'. rows df' = pre @ rs' \<and> length rs' = length rs \<and>
      (\<forall>j < length rs. rs' ! j = rs ! j \<or> rs' ! j = row_apply e a (us ! j) (rs ! j))) \<and>
   (x = None \<longrightarrow> (\<forall>u \<in> set us. row_raises e a u = None))"
proof (induction us arbitrary: k pre rs df evs)
  case Nil
  then show ?case by auto
next
  case (Cons u us)
  then obtain r rs' where rs: "rs = r # rs'" by (cases rs) auto
  let ?df = "df\<lparr>rows := (pre @ [row_apply e a u r]) @ rs'\<rparr>"
  have k: "k < length (rows df)" using Cons.prems rs by simp
  have body: "loop_body e a k u (df, evs) = (row_raises e a u, ?df, evs @ row_events e a u)"
    using Cons.prems rs by (simp add: loop_body_eq [OF k] list_update_append nth_append)
  show ?case
  proof (cases "row_raises e a u")
    case (Some err)
    with body Cons.prems(4) have "x = Some err" "df' = ?df" by auto
    then have "columns df' = columns df" and "rows df' = pre @ (row_apply e a u r # rs')" by simp_all
    moreover have "\<forall>j < length rs. (row_apply e a u r # rs') ! j = rs ! j \<or>
        (row_apply e a u r # rs') ! j = row_apply e a ((u # us) ! j) (rs ! j)"
      using rs by (auto simp: nth_Cons')
    ultimately show ?thesis using rs \<open>x = Some err\<close> by auto
  next
    case None
    with body Cons.prems(4)
    have l: "loop e a (enumerate (Suc k) us) (?df, evs @ row_events e a u) = (x, df', evs')" by simp
    have "columns df' = columns ?df \<and>
      (\<exists>rs''. rows df' = (pre @ [row_apply e a u r]) @ rs'' \<and> length rs'' = length rs' \<and>
         (\<forall>j < length rs'. rs'' ! j = rs' ! j \<or> rs'' ! j = row_apply e a (us ! j) (rs' ! j))) \<and>
      (x = None \<longrightarrow> (\<forall>u \<in> set us. row_raises e a u = None))"
      using Cons.prems rs by (intro Cons.IH [OF _ _ _ l]) auto
    then obtain rs'' where c: "columns df' = columns df"
      and r': "rows df' = pre @ (row_apply e a u r # rs'')" and len: "length rs'' = length rs'"
      and each: "\<forall>j < length rs'. rs'' ! j = rs' ! j \<or> rs'' ! j = row_apply e a (us ! j) (rs' ! j)"
      and nr: "x = None \<longrightarrow> (\<forall>u \<in> set us. row_raises e a u = None)"
      by auto
    have "\<forall>j < length rs. (row_apply e a u r # rs'') ! j = rs ! j \<or>
        (row_apply e a u r # rs'') ! j = row_apply e a ((u # us) ! j) (rs ! j)"
    proof (intro allI impI)
      fix j assume "j < length rs"
      show "(row_apply e a u r # rs'') ! j = rs ! j \<or>
        (row_apply e a u r # rs'') ! j = row_apply e a ((u # us) ! j) (rs ! j)"
      proof (cases j)
        case 0
        then show ?thesis using rs by simp
      next
        case (Suc j')
        with \<open>j < length rs\<close> rs have "j' < length rs'" by simp
        with each Suc rs show ?thesis by simp
      qed
    qed
    with c r' len rs nr None show ?thesis by auto
  qed
qed

section \<open>The run as a whole\<close>

lemma events_by_index:
  "concat (map (row_events e a) (map (\<lambda>r. r (url_col a)) (rows (init_columns df)))) =
   concat (map (\<lambda>j. row_events e a (url_of a df j)) [0..<length (rows df)])"
proof -
  have "map (row_events e a) (map (\<lambda>r. r (url_col a)) (rows (init_columns df))) =
        map (\<lambda>j. row_events e a (url_of a df j)) [0..<length (rows df)]"
    by (rule nth_equalityI) (simp_all add: url_of_def)
  then show ?thesis by simp
qed

lemma events_by_index_comp:
  "concat (map (row_events e a \<circ> (\<lambda>r. r (url_col a))) (rows (init_columns df))) =
   concat (map (\<lambda>j. row_events e a (url_of a df j)) [0..<length (rows df)])"
  using events_by_index [of e a df] by (simp add: comp_def)

lemma rows_enrich_init:
  "rows (enrich e a (init_columns df)) =
     map (\<lambda>j. row_apply e a (url_of a df j) (rows (init_columns df) ! j)) [0..<length (rows df)]"
  by (rule nth_equalityI) (simp_all add: enrich_def url_of_def)

lemma enrich_row:
  "j < length (rows df) \<Longrightarrow>
   rows (enrich e a (init_columns df)) ! j = row_apply e a (url_of a df j) (rows (init_columns df) ! j)"
  by (simp add: rows_enrich_init)

lemma enrich_columns [simp]: "columns (enrich e a df) = columns df"
  by (simp add: enrich_def)

lemma length_enrich: "length (rows (enrich e a (init_columns df))) = length (rows df)"
  by (simp add: rows_enrich_init)

lemma process_rows_complete:
  assumes "\<forall>j. j < length (rows df) \<longrightarrow> row_raises e a (url_of a df j) = None"
  shows "process_rows e a df =
    (None, enrich e a (init_columns df),
     concat (map (\<lambda>j. row_events e a (url_of a df j)) [0..<length (rows df)]))"
proof -
  let ?df1 = "init_columns df"
  let ?us = "map (\<lambda>r. r (url_col a)) (rows ?df1)"
  have nr: "\<forall>u \<in> set ?us. row_raises e a u = None"
  proof
    fix u assume "u \<in> set ?us"
    then obtain j where "j < length ?us" "u = ?us ! j" by (auto simp: in_set_conv_nth)
    then have "j < length (rows df)" "u = url_of a df j" by (simp_all add: url_of_def)
    with assms show "row_raises e a u = None" by simp
  qed
  have "loop e a (enumerate 0 ?us) (?df1, []) =
     (None, ?df1\<lparr>rows := [] @ map (\<lambda>(u, r). row_apply e a u r) (zip ?us (rows ?df1))\<rparr>,
      [] @ concat (map (row_events e a) ?us))"
    using nr by (intro loop_complete) auto
  moreover have "map (\<lambda>(u, r). row_apply e a u r) (zip ?us (rows ?df1))
      = map (\<lambda>r. row_apply e a (r (url_col a)) r) (rows ?df1)"
    by (simp add: zip_map1 zip_same_conv_map)
  ultimately show ?thesis
    by (simp add: process_rows_def items_def enrich_def Let_def events_by_index_comp)
qed

lemma process_rows_any:
  assumes "process_rows e a df = (x, df', evs)"
  shows "columns df' = columns (init_columns df)"
    and "length (rows df') = length (rows df)"
    and "\<forall>j. j < length (rows df) \<longrightarrow>
           rows df' ! j = rows (init_columns df) ! j \<or>
           rows df' ! j = row_apply e a (url_of a df j) (rows (init_columns df) ! j)"
    and "x = None \<longrightarrow> (\<forall>j. j < length (rows df) \<longrightarrow> row_raises e a (url_of a df j) = None)"
proof -
  let ?df1 = "init_columns df"
  let ?us = "map (\<lambda>r. r (url_col a)) (rows ?df1)"
  from assms have l: "loop e a (enumerate 0 ?us) (?df1, []) = (x, df', evs)"
    by (simp add: process_rows_def items_def Let_def)
  have "columns df' = columns ?df1 \<and>
   (\<exists>rs'. rows df' = [] @ rs' \<and> length rs' = length (rows ?df1) \<and>
      (\<forall>j < length (rows ?df1). rs' ! j = rows ?df1 ! j \<or> rs' ! j = row_apply e a (?us ! j) (rows ?df1 ! j))) \<and>
   (x = None \<longrightarrow> (\<forall>u \<in> set ?us. row_raises e a u = None))"
    by (rule loop_any [OF _ _ _ l]) simp_all
  then have c: "columns df' = columns ?df1" and len: "length (rows df') = length (rows ?df1)"
    and each: "\<forall>j < length (rows ?df1). rows df' ! j = rows ?df1 ! j \<or>
        rows df' ! j = row_apply e a (?us ! j) (rows ?df1 ! j)"
    and nr: "x = None \<longrightarrow> (\<forall>u \<in> set ?us. row_raises e a u = None)"
    by auto
  show "columns df' = columns (init_columns df)" by (rule c)
  show "length (rows df') = length (rows df)" using len by simp
  show "\<forall>j. j < length (rows df) \<longrightarrow>
           rows df' ! j = rows (init_columns df) ! j \<or>
           rows df' ! j = row_apply e a (url_of a df j) (rows (init_columns df) ! j)"
    using each by (simp add: url_of_def)
  show "x = None \<longrightarrow> (\<forall>j. j < length (rows df) \<longrightarrow> row_raises e a (url_of a df j) = None)"
  proof (intro impI allI)
    fix j assume "x = None" "j < length (rows df)"
    then have "?us ! j \<in> set ?us" by simp
    with nr \<open>x = None\<close> have "row_raises e a (?us ! j) = None" by blast
    then show "row_raises e a (url_of a df j) = None"
      using \<open>j < length (rows df)\<close> by (simp add: url_of_def)
  qed
qed

lemma process_rows_None:
  assumes "process_rows e a df = (None, df', evs)"
  shows "df' = enrich e a (init_columns df)"
    and "evs = concat (map (\<lambda>j. row_events e a (url_of a df j)) [0..<length (rows df)])"
  using process_rows_any(4) [OF assms] process_rows_complete [of df e a] assms by simp_all

lemma process_rows_fields:
  assumes "process_rows e a df = (x, df', evs)" and "j < length (rows df)"
  shows "output_fields (rows df' ! j) = (Str ''N/A'', NA, NA) \<or>
         (\<exists>t. row_update e a (url_of a df j) = Some t \<and> output_fields (rows df' ! j) = t)"
  using process_rows_any(3) [OF assms(1)] assms(2)
  by (auto simp: row_apply_fields init_row_fields split: option.splits)

lemma process_rows_frame:
  assumes "process_rows e a df = (x, df', evs)" and "j < length (rows df)"
    and "c \<notin> {low_high_col, low_col, high_col}"
  shows "(rows df' ! j) c = (rows df ! j) c"
  using process_rows_any(3) [OF assms(1)] assms(2,3)
  by (auto simp: row_apply_frame init_row_frame)

lemma main_of_process:
  assumes "url_col a \<in> set (columns df)" and "process_rows e a df = (x, df', evs)"
  shows "main e a df =
    (case x of
       Some err \<Rightarrow> (Raised err, evs)
     | None \<Rightarrow>
         (case to_csv e (output_path a) df' of
            Some err \<Rightarrow> (Raised err, evs)
          | None \<Rightarrow> (Returned, evs @ [To_csv (output_path a) df', Print (''Wrote: '' @ output_path a)])))"
  using assms by (simp add: main_def split: option.splits)

lemma main_written:
  assumes "url_col a \<in> set (columns df)" and "process_rows e a df = (None, df', evs)"
    and "to_csv e (output_path a) df' = None"
  shows "main e a df = (Returned, evs @ [To_csv (output_path a) df', Print (''Wrote: '' @ output_path a)])"
  using main_of_process [OF assms(1,2)] assms(3) by simp


lemma init_columns_same:
  assumes "same_outside_outputs df' df"
  shows "init_columns df' = init_columns df"
proof -
  from assms have c: "columns df' = columns df" and l: "length (rows df') = length (rows df)"
    and f: "\<And>i c. i < length (rows df) \<Longrightarrow> c \<notin> {low_high_col, low_col, high_col} \<Longrightarrow>
              (rows df' ! i) c = (rows df ! i) c"
    unfolding same_outside_outputs_def by auto
  have "map (\<lambda>r. r(low_high_col := Str ''N/A'', low_col := NA, high_col := NA)) (rows df') =
        map (\<lambda>r. r(low_high_col := Str ''N/A'', low_col := NA, high_col := NA)) (rows df)"
  proof (rule nth_equalityI)
    show "length (map (\<lambda>r. r(low_high_col := Str ''N/A'', low_col := NA, high_col := NA)) (rows df')) =
          length (map (\<lambda>r. r(low_high_col := Str ''N/A'', low_col := NA, high_col := NA)) (rows df))"
      using l by simp
  next
    fix i assume "i < length (map (\<lambda>r. r(low_high_col := Str ''N/A'', low_col := NA, high_col := NA)) (rows df'))"
    then have i: "i < length (rows df)" using l by simp
    have "(rows df' ! i)(low_high_col := Str ''N/A'', low_col := NA, high_col := NA) =
          (rows df ! i)(low_high_col := Str ''N/A'', low_col := NA, high_col := NA)"
    proof (rule ext)
      fix c
      show "((rows df' ! i)(low_high_col := Str ''N/A'', low_col := NA, high_col := NA)) c =
            ((rows df ! i)(low_high_col := Str ''N/A'', low_col := NA, high_col := NA)) c"
        using f [OF i, of c] by simp
    qed
    then show "map (\<lambda>r. r(low_high_col := Str ''N/A'', low_col := NA, high_col := NA)) (rows df') ! i =
               map (\<lambda>r. r(low_high_col := Str ''N/A'', low_col := NA, high_col := NA)) (rows df) ! i"
      using i l by simp
  qed
  then show ?thesis using c by (simp add: init_columns_eq)
qed

lemma main_init:
  assumes "init_columns df' = init_columns df"
    and "url_col a \<in> set (columns df')" and "url_col a \<in> set (columns df)"
  shows "main e a df' = main e a df"
  using assms by (simp add: main_def process_rows_def)

lemma main_same:
  assumes "same_outside_outputs df' df"
  shows "main e a df' = main e a df"
proof -
  have c: "columns df' = columns df" using assms unfolding same_outside_outputs_def by simp
  show ?thesis
    unfolding main_def process_rows_def init_columns_same [OF assms] c by (rule refl)
qed

lemma init_columns_enrich:
  "init_columns (enrich e a (init_columns df)) = init_columns df"
proof -
  let ?reset = "\<lambda>r::row. r(low_high_col := Str ''N/A'', low_col := NA, high_col := NA)"
  have "set [low_high_col, low_col, high_col] \<subseteq> set (columns (init_columns df))"
    by (auto simp: columns_init_columns)
  then have c: "columns (init_columns (enrich e a (init_columns df))) = columns (init_columns df)"
    by (simp add: columns_init_columns [of "enrich e a (init_columns df)"])
  have r: "?reset (row_apply e a u (?reset r)) = ?reset r" for u r
  proof (rule ext)
    fix c
    show "(?reset (row_apply e a u (?reset r))) c = (?reset r) c"
      by (cases "c \<in> {low_high_col, low_col, high_col}") (auto simp: row_apply_frame)
  qed
  have "rows (init_columns (enrich e a (init_columns df))) = rows (init_columns df)"
    by (simp add: rows_init_columns enrich_def comp_def r)
  with c show ?thesis by (simp add: dataframe.equality)
qed

lemma main_round_trip:
  assumes "url_col a \<in> set (columns df)"
  shows "main e a (enrich e a (init_columns df)) = main e a df"
proof (rule main_init)
  show "init_columns (enrich e a (init_columns df)) = init_columns df"
    by (rule init_columns_enrich)
  show "url_col a \<in> set (columns (enrich e a (init_columns df)))"
    using assms by (simp add: columns_init_columns)
  show "url_col a \<in> set (columns df)" by (rule assms)
qed

lemma row_update_cases:
  "row_update e a url = None \<or>
   (\<exists>low high. row_update e a url = Some (Str (str_int low @ ''-'' @ str_int high), Num low, Num high))"
  by (auto simp: row_update_def fields_of_def label_def py_str_int_def
      split: sum.splits option.splits if_splits)


lemma row_update_blank:
  "url_string (int_max_str_digits e) url = Inr None \<Longrightarrow> row_update e a url = None"
  by (simp add: row_update_def)

section \<open>Turns that raise and the sample runs\<close>



lemma sample_url_col: "url_col sample_args \<in> set (columns sample_frame)"
  by (simp add: sample_args_def sample_frame_def)

lemma sample_length: "length (rows sample_frame) = 4"
  by (simp add: sample_frame_def)

lemma sample_settings:
  "timeout sample_args = 25" "delay sample_args = - 1" "output_path sample_args = ''out.csv''"
  "int_max_str_digits sample_env = 4300" "soup_get_text sample_env = id"
  "to_csv sample_env p d = None"
  "time_sleep sample_env 0 = None"
  "time_sleep sample_env 10000000000 = Some OverflowError"
  by (simp_all add: sample_args_def sample_env_def)

lemma sample_urls:
  "url_of sample_args sample_frame 0 = Str '' https://example.test/draft ''"
  "url_of sample_args sample_frame 1 = NA"
  "url_of sample_args sample_frame 2 = Str ''https://example.test/gone''"
  "url_of sample_args sample_frame 3 = Str ''https://example.test/plain''"
  by (simp_all add: url_of_def rows_init_columns sample_args_def sample_frame_def
      low_high_col_def low_col_def high_col_def)

lemma sample_url_strings:
  "url_string 4300 (Str '' https://example.test/draft '') = Inr (Some ''https://example.test/draft'')"
  "url_string 4300 NA = Inr None"
  "url_string 4300 (Str ''https://example.test/gone'') = Inr (Some ''https://example.test/gone'')"
  "url_string 4300 (Str ''https://example.test/plain'') = Inr (Some ''https://example.test/plain'')"
  by (simp_all add: url_string_def isna_def strip_def is_space_def)

lemma sample_fetch:
  "fetch_html sample_env ''https://example.test/draft'' 25 = Inr ''Price Range: 8-9 points''"
  "fetch_html sample_env ''https://example.test/gone'' 25 = Inl (HTTPError 404)"
  "fetch_html sample_env ''https://example.test/plain'' 25 = Inr ''no price here''"
  by (simp_all add: fetch_html_def sample_env_def raise_for_status_def)

lemma sample_extract_none:
  "extract_price_range_from_html 4300 id ''no price here'' = Inr None"
  using extract_none [of id "''no price here''" 4300] sample_none_searches by simp

lemma sample_no_raise:
  "\<forall>j. j < length (rows sample_frame) \<longrightarrow>
     row_raises sample_env sample_args (url_of sample_args sample_frame j) = None"
proof (intro allI impI)
  fix j assume "j < length (rows sample_frame)"
  then have "j = 0 \<or> j = 1 \<or> j = 2 \<or> j = 3" unfolding sample_length by arith
  then show "row_raises sample_env sample_args (url_of sample_args sample_frame j) = None"
    using sample_urls sample_url_strings
    by (auto simp: row_raises_def sample_settings)
qed

lemma sample_process:
  "process_rows sample_env sample_args sample_frame =
    (None, enrich sample_env sample_args (init_columns sample_frame),
     concat (map (\<lambda>j. row_events sample_env sample_args (url_of sample_args sample_frame j))
       [0..<length (rows sample_frame)]))"
  by (rule process_rows_complete [OF sample_no_raise])

lemma sample_main:
  "main sample_env sample_args sample_frame =
    (Returned,
     concat (map (\<lambda>j. row_events sample_env sample_args (url_of sample_args sample_frame j))
       [0..<length (rows sample_frame)]) @
     [To_csv ''out.csv'' (enrich sample_env sample_args (init_columns sample_frame)),
      Print ''Wrote: out.csv''])"
  using main_written [OF sample_url_col sample_process] by (simp add: sample_settings)





lemma sample_indices: "[0..<length (rows sample_frame)] = [0, 1, 2, 3]"
  unfolding sample_length by (simp add: upt_rec)

lemma sample_row_events:
  "row_events sample_env sample_args (url_of sample_args sample_frame 0) = [Get ''https://example.test/draft'' 25, Sleep 0]"
  "row_events sample_env sample_args (url_of sample_args sample_frame 1) = []"
  "row_events sample_env sample_args (url_of sample_args sample_frame (Suc 0)) = []"
  "row_events sample_env sample_args (url_of sample_args sample_frame 2) = [Get ''https://example.test/gone'' 25, Sleep 0]"
  "row_events sample_env sample_args (url_of sample_args sample_frame 3) = [Get ''https://example.test/plain'' 25, Sleep 0]"
  using sample_urls
  by (simp_all add: row_events_def sample_url_strings sample_settings)

lemma sample_trace:
  "concat (map (\<lambda>j. row_events sample_env sample_args (url_of sample_args sample_frame j))
       [0..<length (rows sample_frame)]) =
   [Get ''https://example.test/draft'' 25, Sleep 0,
    Get ''https://example.test/gone'' 25, Sleep 0,
    Get ''https://example.test/plain'' 25, Sleep 0]"
  unfolding sample_indices by (simp add: sample_row_events)

lemma sample_label: "label 4300 8 9 = Inr ''8-9''"
  by code_simp

lemma sample_extract_draft:
  "extract_price_range_from_html 4300 id ''Price Range: 8-9 points'' = Inr (Some (8, 9))"
  by code_simp

lemma sample_row_update:
  "row_update sample_env sample_args (url_of sample_args sample_frame 0) =
     Some (Str ''8-9'', Num 8, Num 9)"
  "row_update sample_env sample_args (url_of sample_args sample_frame 2) = None"
  by (simp_all add: row_update_def fields_of_def sample_urls sample_url_strings sample_settings
      sample_fetch sample_extract_draft sample_label)

section \<open>Two worlds that answer alike\<close>

lemma try_block_cong:
  assumes "soup_get_text e1 = soup_get_text e2"
    and "int_max_str_digits e1 = int_max_str_digits e2"
    and "requests_get e1 u headers (timeout a) = requests_get e2 u headers (timeout a)"
  shows "try_block e1 a i u df = try_block e2 a i u df"
  unfolding try_block_def fetch_html_def assms by (rule refl)

lemma loop_body_cong:
  assumes "soup_get_text e1 = soup_get_text e2"
    and "int_max_str_digits e1 = int_max_str_digits e2"
    and "time_sleep e1 = time_sleep e2"
    and "\<forall>u. url_string (int_max_str_digits e1) url = Inr (Some u) \<longrightarrow>
           requests_get e1 u headers (timeout a) = requests_get e2 u headers (timeout a)"
  shows "loop_body e1 a i url st = loop_body e2 a i url st"
proof (cases st)
  case (Pair df evs)
  show ?thesis
  proof (cases "url_string (int_max_str_digits e1) url")
    case (Inl err)
    then show ?thesis using assms(2) by (simp add: Pair loop_body.simps)
  next
    case (Inr o1)
    show ?thesis
    proof (cases o1)
      case None
      then show ?thesis using Inr assms(2) by (simp add: Pair loop_body.simps)
    next
      case (Some u)
      with Inr assms(4) have "requests_get e1 u headers (timeout a) = requests_get e2 u headers (timeout a)"
        by simp
      from try_block_cong [OF assms(1,2) this]
      have "try_block e1 a i u df = try_block e2 a i u df" .
      then show ?thesis using Inr Some assms(2,3) by (simp add: Pair loop_body.simps)
    qed
  qed
qed

lemma loop_cong:
  assumes "\<And>i url st. (i, url) \<in> set its \<Longrightarrow> loop_body e1 a i url st = loop_body e2 a i url st"
  shows "loop e1 a its st = loop e2 a its st"
  using assms
proof (induction its arbitrary: st)
  case Nil
  show ?case by simp
next
  case (Cons p its)
  obtain i url where p: "p = (i, url)" by (cases p)
  have b: "loop_body e1 a i url st = loop_body e2 a i url st"
    by (rule Cons.prems) (simp add: p)
  have r: "\<And>st'. loop e1 a its st' = loop e2 a its st'"
    by (rule Cons.IH) (rule Cons.prems, simp)
  show ?case by (simp add: p b r split: prod.splits option.splits)
qed

lemma process_rows_cong:
  assumes "soup_get_text e1 = soup_get_text e2"
    and "int_max_str_digits e1 = int_max_str_digits e2"
    and "time_sleep e1 = time_sleep e2"
    and "\<forall>j u. j < length (rows df) \<and>
           url_string (int_max_str_digits e1) (url_of a df j) = Inr (Some u) \<longrightarrow>
           requests_get e1 u headers (timeout a) = requests_get e2 u headers (timeout a)"
  shows "process_rows e1 a df = process_rows e2 a df"
proof -
  let ?df1 = "init_columns df"
  have "loop e1 a (items ?df1 (url_col a)) (?df1, []) = loop e2 a (items ?df1 (url_col a)) (?df1, [])"
  proof (rule loop_cong)
    fix i url st
    assume "(i, url) \<in> set (items ?df1 (url_col a))"
    then have "i < length (rows df)" "url = url_of a df i"
      by (auto simp: items_def in_set_enumerate_eq url_of_def)
    with assms(4) have "\<forall>u. url_string (int_max_str_digits e1) url = Inr (Some u) \<longrightarrow>
           requests_get e1 u headers (timeout a) = requests_get e2 u headers (timeout a)"
      by blast
    from loop_body_cong [OF assms(1,2,3) this]
    show "loop_body e1 a i url st = loop_body e2 a i url st" .
  qed
  then show ?thesis by (simp add: process_rows_def Let_def)
qed

lemma main_cong:
  assumes "url_col a \<in> set (columns df)"
    and "to_csv e1 = to_csv e2"
    and "process_rows e1 a df = process_rows e2 a df"
  shows "main e1 a df = main e2 a df"
  unfolding main_def assms(2,3) using assms(1) by simp

lemma sample_env2_settings:
  "soup_get_text sample_env = soup_get_text sample_env2"
  "int_max_str_digits sample_env = int_max_str_digits sample_env2"
  "time_sleep sample_env = time_sleep sample_env2"
  "to_csv sample_env = to_csv sample_env2"
  by (simp_all add: sample_env2_def)

lemma sample_env2_differs:
  "requests_get sample_env ''https://example.test/other'' headers 25 = Inl (RequestException ''timed out'')"
  "requests_get sample_env2 ''https://example.test/other'' headers 25 =
     Inr \<lparr>status_code = 200, response_text = ''Price Range: 1-2 points''\<rparr>"
  by (simp_all add: sample_env2_def sample_env_def)

lemma sample_env2_requests:
  "\<forall>j u. j < length (rows sample_frame) \<and>
     url_string (int_max_str_digits sample_env) (url_of sample_args sample_frame j) = Inr (Some u) \<longrightarrow>
     requests_get sample_env u headers (timeout sample_args) =
     requests_get sample_env2 u headers (timeout sample_args)"
proof (intro allI impI)
  fix j u
  assume h: "j < length (rows sample_frame) \<and>
     url_string (int_max_str_digits sample_env) (url_of sample_args sample_frame j) = Inr (Some u)"
  then have "j = 0 \<or> j = 1 \<or> j = 2 \<or> j = 3" unfolding sample_length by arith
  with h have "u \<noteq> ''https://example.test/other''"
    using sample_urls sample_url_strings by (auto simp: sample_settings)
  then show "requests_get sample_env u headers (timeout sample_args) =
     requests_get sample_env2 u headers (timeout sample_args)"
    by (simp add: sample_env2_def)
qed

section \<open>The claims\<close>

text \<open>
  C1, as the program has it. The pair is not returned for every text that holds the range
  shape: \<open>int\<close> refuses a group of more digits than the digit limit of the interpreter.
  With the default limit of 4300, a first integer of 4301 digits makes the extractor
  raise \<open>ValueError\<close>.
\<close>

theorem extract_first_range_counterexample:
  "spec_range_at (id (''Price Range: '' @ replicate 4301 CHR ''0'' @ ''-9 points'')) []
     (replicate 4301 CHR ''0'') ''9'' \<and>
   extract_price_range_from_html 4300 id (''Price Range: '' @ replicate 4301 CHR ''0'' @ ''-9 points'')
     = Inl ValueError"
proof -
  let ?t = "''Price Range: '' @ replicate 4301 CHR ''0'' @ ''-9 points''"
  have h: "spec_range_at (id ?t) [] (replicate 4301 CHR ''0'') ''9''"
    using long_range_at by simp
  have "extract_price_range_from_html 4300 id ?t =
     (if too_long 4300 (length (replicate 4301 CHR ''0'')) \<or> too_long 4300 (length ''9'')
      then Inl ValueError
      else Inr (Some (int_of_digits (replicate 4301 CHR ''0''), int_of_digits ''9'')))"
    by (rule extract_first_range_aux [of id ?t "[]" "replicate 4301 CHR ''0''" "''9''" 4300, OF h]) simp
  then have "extract_price_range_from_html 4300 id ?t = Inl ValueError"
    by (simp add: too_long_def)
  with h show ?thesis by blast
qed

text \<open>
  C1, amended. Whenever the flattened text of the markup holds the range shape (the phrase
  \<open>Price Range:\<close> in any case, an integer, a hyphen, a second integer and the word
  \<open>points\<close>, white space allowed around the integers and the hyphen), the extractor
  takes the two integers of the first such occurrence in the text: the occurrence at
  \<open>pre\<close> is one before which no other begins. It returns the pair of their values when
  neither has more digits than the digit limit of the interpreter (4300 by default, no
  limit when it is 0), and raises \<open>ValueError\<close> otherwise.
\<close>

theorem extract_first_range:
  assumes "spec_range_at (get_text html) pre d1 d2"
    and "\<forall>pre' e1 e2. spec_range_at (get_text html) pre' e1 e2 \<longrightarrow> length pre \<le> length pre'"
  shows "extract_price_range_from_html maxd get_text html =
     (if too_long maxd (length d1) \<or> too_long maxd (length d2) then Inl ValueError
      else Inr (Some (int_of_digits d1, int_of_digits d2)))"
  by (rule extract_first_range_aux [of get_text html pre d1 d2 maxd, OF assms])

theorem extract_first_range_witness:
  "spec_range_at (id ''pRICE rANGE:  08 -  9   POINTS!'') [] ''08'' ''9'' \<and>
   \<not> too_long 4300 (length ''08'') \<and> \<not> too_long 4300 (length ''9'') \<and>
   extract_price_range_from_html 4300 id ''pRICE rANGE:  08 -  9   POINTS!'' = Inr (Some (8, 9))"
proof -
  have h: "spec_range_at (id ''pRICE rANGE:  08 -  9   POINTS!'') [] ''08'' ''9''"
    using sample_range_at by simp
  have "extract_price_range_from_html 4300 id ''pRICE rANGE:  08 -  9   POINTS!'' =
     (if too_long 4300 (length ''08'') \<or> too_long 4300 (length ''9'') then Inl ValueError
      else Inr (Some (int_of_digits ''08'', int_of_digits ''9'')))"
    using extract_first_range [of id "''pRICE rANGE:  08 -  9   POINTS!''" "[]" "''08''" "''9''" 4300] h
    by simp
  with h show ?thesis by (simp add: int_of_digits_08 too_long_def)
qed

text \<open>
  C2, as the program has it. A match of the single-value pattern does not always give
  \<open>(value, value)\<close>: with the default digit limit, a value of 4301 digits makes the
  extractor raise \<open>ValueError\<close>, which is neither a pair nor \<open>None\<close>.
\<close>

theorem extract_pattern_priority_counterexample:
  "\<not> spec_range_occurs (id (''Price Range: '' @ replicate 4301 CHR ''7'' @ '' points'')) \<and>
   spec_single_at (id (''Price Range: '' @ replicate 4301 CHR ''7'' @ '' points'')) []
     (replicate 4301 CHR ''7'') \<and>
   extract_price_range_from_html 4300 id (''Price Range: '' @ replicate 4301 CHR ''7'' @ '' points'')
     = Inl ValueError"
proof -
  let ?t = "''Price Range: '' @ replicate 4301 CHR ''7'' @ '' points''"
  have n: "\<not> spec_range_occurs (id ?t)" using long_single_no_range by simp
  have h: "spec_single_at (id ?t) [] (replicate 4301 CHR ''7'')" using long_single_at by simp
  have "extract_price_range_from_html 4300 id ?t =
     (if too_long 4300 (length (replicate 4301 CHR ''7'')) then Inl ValueError
      else Inr (Some (int_of_digits (replicate 4301 CHR ''7''), int_of_digits (replicate 4301 CHR ''7''))))"
    by (rule extract_first_single_aux [of id ?t "[]" "replicate 4301 CHR ''7''" 4300, OF n h]) simp
  then have "extract_price_range_from_html 4300 id ?t = Inl ValueError"
    by (simp add: too_long_def)
  with n h show ?thesis by blast
qed

text \<open>
  C2, amended. The range pattern is tried first, on the whole flattened text: when the
  range shape occurs anywhere, the first occurrence decides, whether or not the
  single-value shape occurs too, and wherever; only when the range shape occurs nowhere
  is the single-value shape looked for, and its first occurrence decides; when neither
  occurs the extractor returns \<open>None\<close>. The occurrence that decides gives the pair of its
  two integers, or \<open>(value, value)\<close>, when no integer of it has more digits than the digit
  limit of the interpreter, and \<open>ValueError\<close> otherwise; the single-value pattern is not
  tried after a range occurrence in either case.
\<close>

theorem extract_pattern_priority:
  "(spec_range_occurs (get_text html) \<longrightarrow>
      (\<exists>pre d1 d2. spec_range_at (get_text html) pre d1 d2 \<and>
         (\<forall>pre' e1 e2. spec_range_at (get_text html) pre' e1 e2 \<longrightarrow> length pre \<le> length pre') \<and>
         extract_price_range_from_html maxd get_text html =
           (if too_long maxd (length d1) \<or> too_long maxd (length d2) then Inl ValueError
            else Inr (Some (int_of_digits d1, int_of_digits d2))))) \<and>
   (\<not> spec_range_occurs (get_text html) \<and> spec_single_occurs (get_text html) \<longrightarrow>
      (\<exists>pre d. spec_single_at (get_text html) pre d \<and>
         (\<forall>pre' e. spec_single_at (get_text html) pre' e \<longrightarrow> length pre \<le> length pre') \<and>
         extract_price_range_from_html maxd get_text html =
           (if too_long maxd (length d) then Inl ValueError
            else Inr (Some (int_of_digits d, int_of_digits d))))) \<and>
   (\<not> spec_range_occurs (get_text html) \<and> \<not> spec_single_occurs (get_text html) \<longrightarrow>
      extract_price_range_from_html maxd get_text html = Inr None)"
proof (intro conjI impI)
  assume "spec_range_occurs (get_text html)"
  from first_range_exists [OF this] obtain pre d1 d2 where
    r: "spec_range_at (get_text html) pre d1 d2" and
    f: "\<forall>pre' e1 e2. spec_range_at (get_text html) pre' e1 e2 \<longrightarrow> length pre \<le> length pre'"
    by blast
  from extract_first_range_aux [of get_text html pre d1 d2 maxd, OF r f] r f
  show "\<exists>pre d1 d2. spec_range_at (get_text html) pre d1 d2 \<and>
         (\<forall>pre' e1 e2. spec_range_at (get_text html) pre' e1 e2 \<longrightarrow> length pre \<le> length pre') \<and>
         extract_price_range_from_html maxd get_text html =
           (if too_long maxd (length d1) \<or> too_long maxd (length d2) then Inl ValueError
            else Inr (Some (int_of_digits d1, int_of_digits d2)))"
    by blast
next
  assume h: "\<not> spec_range_occurs (get_text html) \<and> spec_single_occurs (get_text html)"
  with first_single_exists obtain pre d where
    r: "spec_single_at (get_text html) pre d" and
    f: "\<forall>pre' e. spec_single_at (get_text html) pre' e \<longrightarrow> length pre \<le> length pre'"
    by blast
  from h have n: "\<not> spec_range_occurs (get_text html)" by simp
  from extract_first_single_aux [of get_text html pre d maxd, OF n r f] r f
  show "\<exists>pre d. spec_single_at (get_text html) pre d \<and>
         (\<forall>pre' e. spec_single_at (get_text html) pre' e \<longrightarrow> length pre \<le> length pre') \<and>
         extract_price_range_from_html maxd get_text html =
           (if too_long maxd (length d) then Inl ValueError
            else Inr (Some (int_of_digits d, int_of_digits d)))"
    by blast
next
  assume "\<not> spec_range_occurs (get_text html) \<and> \<not> spec_single_occurs (get_text html)"
  then show "extract_price_range_from_html maxd get_text html = Inr None"
    by (simp add: extract_none search_range_None_iff search_single_None_iff)
qed

theorem extract_pattern_priority_witness:
  "spec_single_at (id ''Price Range: 5 points, Price Range: 8-9 points'') [] ''5'' \<and>
   spec_range_occurs (id ''Price Range: 5 points, Price Range: 8-9 points'') \<and>
   (\<exists>pre d1 d2. spec_range_at (id ''Price Range: 5 points, Price Range: 8-9 points'') pre d1 d2 \<and>
      extract_price_range_from_html 4300 id ''Price Range: 5 points, Price Range: 8-9 points'' =
        (if too_long 4300 (length d1) \<or> too_long 4300 (length d2) then Inl ValueError
         else Inr (Some (int_of_digits d1, int_of_digits d2)))) \<and>
   extract_price_range_from_html 4300 id ''Price Range: 5 points, Price Range: 8-9 points''
     = Inr (Some (8, 9)) \<and>
   \<not> spec_range_occurs (id ''Price Range: 5 points'') \<and>
   spec_single_occurs (id ''Price Range: 5 points'') \<and>
   (\<exists>pre d. spec_single_at (id ''Price Range: 5 points'') pre d \<and>
      extract_price_range_from_html 4300 id ''Price Range: 5 points'' =
        (if too_long 4300 (length d) then Inl ValueError
         else Inr (Some (int_of_digits d, int_of_digits d)))) \<and>
   extract_price_range_from_html 4300 id ''Price Range: 5 points'' = Inr (Some (5, 5)) \<and>
   \<not> spec_range_occurs (id ''no price here'') \<and>
   \<not> spec_single_occurs (id ''no price here'') \<and>
   extract_price_range_from_html 4300 id ''no price here'' = Inr None"
proof -
  let ?both = "''Price Range: 5 points, Price Range: 8-9 points''"
  have a1: "spec_single_at (id ?both) [] ''5''" using sample_single_early by simp
  have a2: "spec_range_occurs (id ?both)"
    unfolding spec_range_occurs_def using sample_range_late by auto
  have a3: "\<exists>pre d1 d2. spec_range_at (id ?both) pre d1 d2 \<and>
      extract_price_range_from_html 4300 id ?both =
        (if too_long 4300 (length d1) \<or> too_long 4300 (length d2) then Inl ValueError
         else Inr (Some (int_of_digits d1, int_of_digits d2)))"
    using extract_pattern_priority [of id ?both 4300] a2 by blast
  have b1: "\<not> spec_range_occurs (id ''Price Range: 5 points'')"
    by (rule not_range_occursI) (rule sample_single_searches(1))
  have b2: "spec_single_occurs (id ''Price Range: 5 points'')"
    by (rule single_occursI) (rule sample_single_searches(2))
  have b3: "\<exists>pre d. spec_single_at (id ''Price Range: 5 points'') pre d \<and>
      extract_price_range_from_html 4300 id ''Price Range: 5 points'' =
        (if too_long 4300 (length d) then Inl ValueError
         else Inr (Some (int_of_digits d, int_of_digits d)))"
    using extract_pattern_priority [of id "''Price Range: 5 points''" 4300] b1 b2 by blast
  have c1: "\<not> spec_range_occurs (id ''no price here'')"
    by (rule not_range_occursI) (rule sample_none_searches(1))
  have c2: "\<not> spec_single_occurs (id ''no price here'')"
    by (rule not_single_occursI) (rule sample_none_searches(2))
  have c3: "extract_price_range_from_html 4300 id ''no price here'' = Inr None"
    using extract_pattern_priority [of id "''no price here''" 4300] c1 c2 by blast
  from a1 a2 a3 sample_both_value b1 b2 b3 sample_single_searches(3) c1 c2 c3
  show ?thesis by blast
qed

text \<open>
  C3, as the program has it. The pair \<open>(low, high)\<close> is not ordered by construction: the
  text \<open>Price Range: 9-8 points\<close> gives \<open>(9, 8)\<close>.
\<close>

theorem extract_pair_order_counterexample:
  "extract_price_range_from_html 4300 id ''Price Range: 9-8 points'' = Inr (Some (9, 8)) \<and>
   \<not> (9::int) \<le> 8"
  by (simp add: extract_price_range_from_html_def PRICE_RANGE_RE_def is_space_def is_digit_def
      char_eq_def lower_def upper_chars_def lower_chars_def group_def int_of_digits_def
      digit_val_def py_int_def too_long_def)

text \<open>
  C3, amended. Whenever the extractor returns \<open>(low, high)\<close>: if the range shape does not
  occur in the flattened text (the pair comes from a single value), \<open>low = high\<close> and so
  \<open>low \<le> high\<close>; if it occurs, \<open>low\<close> and \<open>high\<close> are the two integers of an occurrence, in the
  order of the text, and nothing orders them.
\<close>

theorem extract_pair_order:
  assumes "extract_price_range_from_html maxd get_text html = Inr (Some (low, high))"
  shows "(spec_range_occurs (get_text html) \<and>
            (\<exists>pre d1 d2. spec_range_at (get_text html) pre d1 d2 \<and>
               low = int_of_digits d1 \<and> high = int_of_digits d2)) \<or>
         (\<not> spec_range_occurs (get_text html) \<and> low = high \<and> low \<le> high)"
proof -
  from extract_SomeD [OF assms] show ?thesis
  proof
    assume "\<exists>m. search PRICE_RANGE_RE (get_text html) = Some m \<and>
            low = int_of_digits (group m ''low'') \<and> high = int_of_digits (group m ''high'')"
    then obtain m where m: "search PRICE_RANGE_RE (get_text html) = Some m"
      and lh: "low = int_of_digits (group m ''low'')" "high = int_of_digits (group m ''high'')"
      by blast
    from search_range_SomeD [OF m] obtain pre d1 d2 where
      r: "spec_range_at (get_text html) pre d1 d2" and me: "m = [(''high'', d2), (''low'', d1)]"
      by blast
    from lh me have "low = int_of_digits d1" "high = int_of_digits d2"
      by (simp_all add: group_def)
    moreover from r have "spec_range_occurs (get_text html)"
      unfolding spec_range_occurs_def by blast
    ultimately show ?thesis using r by blast
  next
    assume "search PRICE_RANGE_RE (get_text html) = None \<and> low = high"
    then show ?thesis by (simp add: search_range_None_iff)
  qed
qed

theorem extract_pair_order_witness:
  "extract_price_range_from_html 4300 id ''Price Range: 5 points'' = Inr (Some (5, 5)) \<and>
   \<not> spec_range_occurs (id ''Price Range: 5 points'') \<and>
   ((spec_range_occurs (id ''Price Range: 5 points'') \<and>
       (\<exists>pre d1 d2. spec_range_at (id ''Price Range: 5 points'') pre d1 d2 \<and>
          (5::int) = int_of_digits d1 \<and> (5::int) = int_of_digits d2)) \<or>
    (\<not> spec_range_occurs (id ''Price Range: 5 points'') \<and> (5::int) = 5 \<and> (5::int) \<le> 5))"
proof -
  have e: "extract_price_range_from_html 4300 id ''Price Range: 5 points'' = Inr (Some (5, 5))"
    by (rule sample_single_searches(3))
  have n: "\<not> spec_range_occurs (id ''Price Range: 5 points'')"
    by (rule not_range_occursI) (rule sample_single_searches(1))
  from extract_pair_order [OF e] e n show ?thesis by blast
qed




text \<open>
  C5. For a row whose URL is missing, empty or blank once stripped, the turn of the row
  is the \<open>continue\<close>: it leaves the table and the trace as they are (no request, no pause)
  and raises nothing. At the end of the loop, however it ends, the three output fields of
  the row are the defaults \<open>"N/A"\<close>, missing, missing, and the run ends as the loop does,
  writing that table when nothing was raised. The URL of a row is the cell the loop
  reads, \<open>url_of\<close>; it is the cell of the input whenever the URL column is none of the
  three output columns (\<open>url_of_input\<close>).
\<close>

theorem blank_url_row:
  assumes "url_col a \<in> set (columns df)" and "i < length (rows df)"
    and "url_string (int_max_str_digits e) (url_of a df i) = Inr None"
  shows "loop_body e a i (url_of a df i) (df0, evs0) = (None, df0, evs0) \<and>
    (\<exists>x df' evs.
      process_rows e a df = (x, df', evs) \<and>
      length (rows df') = length (rows df) \<and>
      output_fields (rows df' ! i) = (Str ''N/A'', NA, NA) \<and>
      main e a df =
        (case x of
           Some err \<Rightarrow> (Raised err, evs)
         | None \<Rightarrow>
             (case to_csv e (output_path a) df' of
                Some err \<Rightarrow> (Raised err, evs)
              | None \<Rightarrow> (Returned, evs @ [To_csv (output_path a) df', Print (''Wrote: '' @ output_path a)]))))"
proof
  show "loop_body e a i (url_of a df i) (df0, evs0) = (None, df0, evs0)"
    using assms(3) by (simp add: loop_body.simps)
next
  obtain x df' evs where p: "process_rows e a df = (x, df', evs)"
    by (cases "process_rows e a df") auto
  have n: "row_update e a (url_of a df i) = None"
    using assms(3) by (rule row_update_blank)
  have f: "output_fields (rows df' ! i) = (Str ''N/A'', NA, NA)"
    using process_rows_fields [OF p assms(2)] n by auto
  have l: "length (rows df') = length (rows df)" by (rule process_rows_any(2) [OF p])
  from p l f main_of_process [OF assms(1) p]
  show "\<exists>x df' evs.
      process_rows e a df = (x, df', evs) \<and>
      length (rows df') = length (rows df) \<and>
      output_fields (rows df' ! i) = (Str ''N/A'', NA, NA) \<and>
      main e a df =
        (case x of
           Some err \<Rightarrow> (Raised err, evs)
         | None \<Rightarrow>
             (case to_csv e (output_path a) df' of
                Some err \<Rightarrow> (Raised err, evs)
              | None \<Rightarrow> (Returned, evs @ [To_csv (output_path a) df', Print (''Wrote: '' @ output_path a)])))"
    by blast
qed

theorem blank_url_row_witness:
  "url_col sample_args \<in> set (columns sample_frame) \<and> (1::nat) < length (rows sample_frame) \<and>
   url_string (int_max_str_digits sample_env) (url_of sample_args sample_frame 1) = Inr None \<and>
   loop_body sample_env sample_args 1 (url_of sample_args sample_frame 1) (sample_frame, [])
     = (None, sample_frame, []) \<and>
   (\<exists>df' evs.
      process_rows sample_env sample_args sample_frame = (None, df', evs) \<and>
      output_fields (rows df' ! 1) = (Str ''N/A'', NA, NA) \<and>
      main sample_env sample_args sample_frame =
        (Returned, evs @ [To_csv ''out.csv'' df', Print ''Wrote: out.csv'']))"
proof -
  have i1: "(1::nat) < length (rows sample_frame)" by (simp add: sample_length)
  have u1: "url_string (int_max_str_digits sample_env) (url_of sample_args sample_frame 1) = Inr None"
    by (simp only: sample_urls sample_settings sample_url_strings)
  note t = blank_url_row [OF sample_url_col i1 u1, of sample_frame "[]"]
  from t have b: "loop_body sample_env sample_args 1 (url_of sample_args sample_frame 1) (sample_frame, [])
     = (None, sample_frame, [])" by blast
  from t obtain x df' evs where
    p: "process_rows sample_env sample_args sample_frame = (x, df', evs)"
    and f: "output_fields (rows df' ! 1) = (Str ''N/A'', NA, NA)"
    and m: "main sample_env sample_args sample_frame =
        (case x of
           Some err \<Rightarrow> (Raised err, evs)
         | None \<Rightarrow>
             (case to_csv sample_env (output_path sample_args) df' of
                Some err \<Rightarrow> (Raised err, evs)
              | None \<Rightarrow> (Returned, evs @ [To_csv (output_path sample_args) df',
                    Print (''Wrote: '' @ output_path sample_args)])))"
    by blast
  from p sample_process have x: "x = None" by simp
  with m have "main sample_env sample_args sample_frame =
        (Returned, evs @ [To_csv ''out.csv'' df', Print ''Wrote: out.csv''])"
    by (simp add: sample_settings)
  with p x f sample_url_col i1 u1 b show ?thesis by blast
qed

text \<open>
  C6. When the configured URL column is not a column of the table, the run ends in
  \<open>SystemExit\<close> with the message that names the column and lists the columns the table
  has, the exit status is not zero, and nothing has happened before: the trace is empty,
  so no row was processed and no file was written.
\<close>

theorem missing_url_column_exits:
  assumes "url_col a \<notin> set (columns df)"
  shows "main e a df =
      (SystemExit (''URL column '' @ [CHR 0x27] @ url_col a @ [CHR 0x27] @
                   '' not found. Available columns: '' @ repr_list e (columns df)), []) \<and>
    exit_code (fst (main e a df)) \<noteq> 0"
  using assms by (simp add: main_def)

theorem missing_url_column_exits_witness:
  "url_col (sample_args\<lparr>url_col := ''url''\<rparr>) \<notin> set (columns sample_frame) \<and>
   main sample_env (sample_args\<lparr>url_col := ''url''\<rparr>) sample_frame =
      (SystemExit (''URL column '' @ [CHR 0x27] @ ''url'' @ [CHR 0x27] @
                   '' not found. Available columns: '' @
                   repr_list sample_env [''name'', ''smogon_draft_url'']), []) \<and>
   exit_code (fst (main sample_env (sample_args\<lparr>url_col := ''url''\<rparr>) sample_frame)) = 1"
proof -
  have h: "url_col (sample_args\<lparr>url_col := ''url''\<rparr>) \<notin> set (columns sample_frame)"
    by (simp add: sample_frame_def)
  from missing_url_column_exits [OF h, of sample_env]
  have m: "main sample_env (sample_args\<lparr>url_col := ''url''\<rparr>) sample_frame =
      (SystemExit (''URL column '' @ [CHR 0x27] @ ''url'' @ [CHR 0x27] @
                   '' not found. Available columns: '' @
                   repr_list sample_env [''name'', ''smogon_draft_url'']), [])"
    by (simp add: sample_frame_def)
  then have "exit_code (fst (main sample_env (sample_args\<lparr>url_col := ''url''\<rparr>) sample_frame)) = 1"
    by simp
  with h m show ?thesis by blast
qed

text \<open>
  C7. The initialisation gives every row the three defaults. The table at the end of the
  loop, which is the table the run writes when nothing was raised, has the columns of the
  input in their order, followed by those of the three output columns that the input did
  not have; it has as many rows, and every cell outside the three output columns is the
  cell of the input. Earlier values of the output columns are overwritten and never
  merged: two inputs that differ in those cells only give the same run.
\<close>

theorem output_frame:
  assumes "url_col a \<in> set (columns df)"
  shows "\<exists>x df' evs.
      process_rows e a df = (x, df', evs) \<and>
      main e a df =
        (case x of
           Some err \<Rightarrow> (Raised err, evs)
         | None \<Rightarrow>
             (case to_csv e (output_path a) df' of
                Some err \<Rightarrow> (Raised err, evs)
              | None \<Rightarrow> (Returned, evs @ [To_csv (output_path a) df', Print (''Wrote: '' @ output_path a)]))) \<and>
      list_all (\<lambda>r. output_fields r = (Str ''N/A'', NA, NA)) (rows (init_columns df)) \<and>
      columns df' = columns df @ filter (\<lambda>c. c \<notin> set (columns df)) [low_high_col, low_col, high_col] \<and>
      length (rows df') = length (rows df) \<and>
      (\<forall>i c. i < length (rows df) \<and> c \<notin> {low_high_col, low_col, high_col} \<longrightarrow>
         (rows df' ! i) c = (rows df ! i) c) \<and>
      (\<forall>df2. same_outside_outputs df2 df \<longrightarrow> main e a df2 = main e a df)"
proof -
  obtain x df' evs where p: "process_rows e a df = (x, df', evs)"
    by (cases "process_rows e a df") auto
  have "list_all (\<lambda>r. output_fields r = (Str ''N/A'', NA, NA)) (rows (init_columns df))"
    by (simp add: rows_init_columns list_all_iff output_fields_def)
  moreover have "columns df' = columns df @ filter (\<lambda>c. c \<notin> set (columns df)) [low_high_col, low_col, high_col]"
    using process_rows_any(1) [OF p] by (simp only: columns_init_columns)
  moreover have "length (rows df') = length (rows df)" by (rule process_rows_any(2) [OF p])
  moreover have "\<forall>i c. i < length (rows df) \<and> c \<notin> {low_high_col, low_col, high_col} \<longrightarrow>
         (rows df' ! i) c = (rows df ! i) c"
    using process_rows_frame [OF p] by blast
  moreover have "\<forall>df2. same_outside_outputs df2 df \<longrightarrow> main e a df2 = main e a df"
    using main_same by blast
  ultimately show ?thesis using p main_of_process [OF assms p] by blast
qed

theorem output_frame_witness:
  "url_col sample_args \<in> set (columns sample_frame) \<and>
   (\<exists>df' evs.
      process_rows sample_env sample_args sample_frame = (None, df', evs) \<and>
      main sample_env sample_args sample_frame =
        (Returned, evs @ [To_csv ''out.csv'' df', Print ''Wrote: out.csv'']) \<and>
      columns df' = [''name'', ''smogon_draft_url'', ''smogon_price_low_high'',
                     ''smogon_price_low'', ''smogon_price_high''] \<and>
      length (rows df') = 4 \<and>
      (rows df' ! 0) ''name'' = Str ''a'' \<and>
      (rows df' ! 0) ''smogon_draft_url'' = Str '' https://example.test/draft '')"
proof -
  from output_frame [OF sample_url_col, of sample_env] obtain x df' evs where
    p: "process_rows sample_env sample_args sample_frame = (x, df', evs)"
    and m: "main sample_env sample_args sample_frame =
        (case x of
           Some err \<Rightarrow> (Raised err, evs)
         | None \<Rightarrow>
             (case to_csv sample_env (output_path sample_args) df' of
                Some err \<Rightarrow> (Raised err, evs)
              | None \<Rightarrow> (Returned, evs @ [To_csv (output_path sample_args) df',
                    Print (''Wrote: '' @ output_path sample_args)])))"
    and c: "columns df' = columns sample_frame @
        filter (\<lambda>c. c \<notin> set (columns sample_frame)) [low_high_col, low_col, high_col]"
    and l: "length (rows df') = length (rows sample_frame)"
    and f: "\<forall>i c. i < length (rows sample_frame) \<and> c \<notin> {low_high_col, low_col, high_col} \<longrightarrow>
         (rows df' ! i) c = (rows sample_frame ! i) c"
    by blast
  from p sample_process have x: "x = None" by simp
  with m have m': "main sample_env sample_args sample_frame =
        (Returned, evs @ [To_csv ''out.csv'' df', Print ''Wrote: out.csv''])"
    by (simp add: sample_settings)
  have c': "columns df' = [''name'', ''smogon_draft_url'', ''smogon_price_low_high'',
                     ''smogon_price_low'', ''smogon_price_high'']"
    using c by (simp add: sample_frame_def low_high_col_def low_col_def high_col_def)
  have l': "length (rows df') = 4" using l by (simp add: sample_length)
  have "(rows df' ! 0) ''name'' = (rows sample_frame ! 0) ''name''"
    using f [rule_format, of 0 "''name''"]
    by (simp add: sample_length low_high_col_def low_col_def high_col_def)
  then have n: "(rows df' ! 0) ''name'' = Str ''a''" by (simp add: sample_frame_def)
  have "(rows df' ! 0) ''smogon_draft_url'' = (rows sample_frame ! 0) ''smogon_draft_url''"
    using f [rule_format, of 0 "''smogon_draft_url''"]
    by (simp add: sample_length low_high_col_def low_col_def high_col_def)
  then have u: "(rows df' ! 0) ''smogon_draft_url'' = Str '' https://example.test/draft ''"
    by (simp add: sample_frame_def)
  from sample_url_col p x m' c' l' n u show ?thesis by blast
qed




text \<open>
  C9. Take two worlds with the same interpreter settings, clock and disk, that flatten
  markup alike and answer alike the requests of the rows whose URL is not blank. The two
  runs on the same table and command line end the loop alike, with the same table and
  the same trace, and the two runs are equal: both write the same table, or both raise
  the same exception at the same place. When no turn raises and the disk takes the file,
  both runs return and write the enriched table. A further run on the table that the
  first run ended with is the first run again: same trace, same written table.
\<close>

theorem deterministic_given_responses:
  assumes "url_col a \<in> set (columns df)"
    and "soup_get_text e1 = soup_get_text e2"
    and "int_max_str_digits e1 = int_max_str_digits e2"
    and "time_sleep e1 = time_sleep e2"
    and "to_csv e1 = to_csv e2"
    and "\<forall>j u. j < length (rows df) \<and>
           url_string (int_max_str_digits e1) (url_of a df j) = Inr (Some u) \<longrightarrow>
           requests_get e1 u headers (timeout a) = requests_get e2 u headers (timeout a)"
  shows "\<exists>x df' evs.
     process_rows e1 a df = (x, df', evs) \<and>
     process_rows e2 a df = (x, df', evs) \<and>
     main e1 a df =
       (case x of
          Some err \<Rightarrow> (Raised err, evs)
        | None \<Rightarrow>
            (case to_csv e1 (output_path a) df' of
               Some err \<Rightarrow> (Raised err, evs)
             | None \<Rightarrow> (Returned, evs @ [To_csv (output_path a) df', Print (''Wrote: '' @ output_path a)]))) \<and>
     main e2 a df = main e1 a df \<and>
     (x = None \<longrightarrow>
        df' = enrich e1 a (init_columns df) \<and>
        main e1 a df' = main e1 a df \<and>
        main e2 a df' = main e1 a df) \<and>
     ((\<forall>j. j < length (rows df) \<longrightarrow> row_raises e1 a (url_of a df j) = None) \<and>
      to_csv e1 (output_path a) (enrich e1 a (init_columns df)) = None \<longrightarrow>
        x = None \<and>
        main e1 a df =
          (Returned, evs @ [To_csv (output_path a) (enrich e1 a (init_columns df)),
                            Print (''Wrote: '' @ output_path a)]) \<and>
        main e2 a df =
          (Returned, evs @ [To_csv (output_path a) (enrich e1 a (init_columns df)),
                            Print (''Wrote: '' @ output_path a)]))"
proof -
  obtain x df' evs where p1: "process_rows e1 a df = (x, df', evs)"
    by (cases "process_rows e1 a df") auto
  have pc: "process_rows e1 a df = process_rows e2 a df"
    by (rule process_rows_cong [OF assms(2,3,4,6)])
  with p1 have p2: "process_rows e2 a df = (x, df', evs)" by simp
  note m1 = main_of_process [OF assms(1) p1]
  have m2: "main e2 a df = main e1 a df"
    using main_cong [OF assms(1,5) pc] by simp
  have rt: "x = None \<longrightarrow>
        df' = enrich e1 a (init_columns df) \<and>
        main e1 a df' = main e1 a df \<and>
        main e2 a df' = main e1 a df"
  proof
    assume "x = None"
    with p1 p2 have d1: "df' = enrich e1 a (init_columns df)"
      and d2: "df' = enrich e2 a (init_columns df)"
      using process_rows_None(1) by blast+
    have "main e1 a df' = main e1 a df"
      unfolding d1 by (rule main_round_trip [OF assms(1)])
    moreover have "main e2 a df' = main e2 a df"
      unfolding d2 by (rule main_round_trip [OF assms(1)])
    ultimately show "df' = enrich e1 a (init_columns df) \<and>
        main e1 a df' = main e1 a df \<and>
        main e2 a df' = main e1 a df"
      using d1 m2 by simp
  qed
  have ok: "(\<forall>j. j < length (rows df) \<longrightarrow> row_raises e1 a (url_of a df j) = None) \<and>
      to_csv e1 (output_path a) (enrich e1 a (init_columns df)) = None \<longrightarrow>
        x = None \<and>
        main e1 a df =
          (Returned, evs @ [To_csv (output_path a) (enrich e1 a (init_columns df)),
                            Print (''Wrote: '' @ output_path a)]) \<and>
        main e2 a df =
          (Returned, evs @ [To_csv (output_path a) (enrich e1 a (init_columns df)),
                            Print (''Wrote: '' @ output_path a)])"
  proof
    assume h: "(\<forall>j. j < length (rows df) \<longrightarrow> row_raises e1 a (url_of a df j) = None) \<and>
      to_csv e1 (output_path a) (enrich e1 a (init_columns df)) = None"
    then have nr: "\<forall>j. j < length (rows df) \<longrightarrow> row_raises e1 a (url_of a df j) = None"
      and w: "to_csv e1 (output_path a) (enrich e1 a (init_columns df)) = None" by simp_all
    from process_rows_complete [OF nr] p1
    have x: "x = None" and d: "df' = enrich e1 a (init_columns df)" by simp_all
    from m1 x d w have "main e1 a df =
          (Returned, evs @ [To_csv (output_path a) (enrich e1 a (init_columns df)),
                            Print (''Wrote: '' @ output_path a)])" by simp
    with x m2 show "x = None \<and>
        main e1 a df =
          (Returned, evs @ [To_csv (output_path a) (enrich e1 a (init_columns df)),
                            Print (''Wrote: '' @ output_path a)]) \<and>
        main e2 a df =
          (Returned, evs @ [To_csv (output_path a) (enrich e1 a (init_columns df)),
                            Print (''Wrote: '' @ output_path a)])" by simp
  qed
  from p1 p2 m1 m2 rt ok show ?thesis by blast
qed

theorem deterministic_given_responses_witness:
  "url_col sample_args \<in> set (columns sample_frame) \<and>
   requests_get sample_env ''https://example.test/other'' headers 25 \<noteq>
     requests_get sample_env2 ''https://example.test/other'' headers 25 \<and>
   main sample_env sample_args sample_frame =
     (Returned,
      [Get ''https://example.test/draft'' 25, Sleep 0,
       Get ''https://example.test/gone'' 25, Sleep 0,
       Get ''https://example.test/plain'' 25, Sleep 0,
       To_csv ''out.csv'' (enrich sample_env sample_args (init_columns sample_frame)),
       Print ''Wrote: out.csv'']) \<and>
   main sample_env2 sample_args sample_frame = main sample_env sample_args sample_frame \<and>
   main sample_env sample_args (enrich sample_env sample_args (init_columns sample_frame)) =
     main sample_env sample_args sample_frame"
proof -
  have w: "to_csv sample_env (output_path sample_args)
      (enrich sample_env sample_args (init_columns sample_frame)) = None"
    by (simp add: sample_settings)
  from deterministic_given_responses [OF sample_url_col sample_env2_settings sample_env2_requests]
  obtain x df' evs where
    p: "process_rows sample_env sample_args sample_frame = (x, df', evs)"
    and m2: "main sample_env2 sample_args sample_frame = main sample_env sample_args sample_frame"
    and rt: "x = None \<longrightarrow>
        df' = enrich sample_env sample_args (init_columns sample_frame) \<and>
        main sample_env sample_args df' = main sample_env sample_args sample_frame \<and>
        main sample_env2 sample_args df' = main sample_env sample_args sample_frame"
    and ok: "(\<forall>j. j < length (rows sample_frame) \<longrightarrow>
               row_raises sample_env sample_args (url_of sample_args sample_frame j) = None) \<and>
      to_csv sample_env (output_path sample_args)
        (enrich sample_env sample_args (init_columns sample_frame)) = None \<longrightarrow>
        x = None \<and>
        main sample_env sample_args sample_frame =
          (Returned, evs @ [To_csv (output_path sample_args)
                              (enrich sample_env sample_args (init_columns sample_frame)),
                            Print (''Wrote: '' @ output_path sample_args)]) \<and>
        main sample_env2 sample_args sample_frame =
          (Returned, evs @ [To_csv (output_path sample_args)
                              (enrich sample_env sample_args (init_columns sample_frame)),
                            Print (''Wrote: '' @ output_path sample_args)])"
    by blast
  from ok sample_no_raise w have x: "x = None"
    and m: "main sample_env sample_args sample_frame =
          (Returned, evs @ [To_csv (output_path sample_args)
                              (enrich sample_env sample_args (init_columns sample_frame)),
                            Print (''Wrote: '' @ output_path sample_args)])"
    by blast+
  from p x sample_process sample_trace have "evs =
      [Get ''https://example.test/draft'' 25, Sleep 0,
       Get ''https://example.test/gone'' 25, Sleep 0,
       Get ''https://example.test/plain'' 25, Sleep 0]" by simp
  with m have m': "main sample_env sample_args sample_frame =
     (Returned,
      [Get ''https://example.test/draft'' 25, Sleep 0,
       Get ''https://example.test/gone'' 25, Sleep 0,
       Get ''https://example.test/plain'' 25, Sleep 0,
       To_csv ''out.csv'' (enrich sample_env sample_args (init_columns sample_frame)),
       Print ''Wrote: out.csv''])"
    by (simp add: sample_settings)
  from rt x have r: "main sample_env sample_args (enrich sample_env sample_args (init_columns sample_frame)) =
     main sample_env sample_args sample_frame" by blast
  have d: "requests_get sample_env ''https://example.test/other'' headers 25 \<noteq>
     requests_get sample_env2 ''https://example.test/other'' headers 25"
    unfolding sample_env2_differs by simp
  from sample_url_col d m' m2 r show ?thesis by blast
qed

text \<open>
  C10. In the table at the end of the loop, which is the table the run writes when
  nothing was raised, every row has either the three defaults (\<open>"N/A"\<close>, missing, missing)
  or two integers \<open>low\<close> and \<open>high\<close> in the numeric fields together with the label
  \<open>str(low) + "-" + str(high)\<close>, where \<open>str\<close> is the decimal rendering
  (\<open>int_of_digits_str_int\<close>); the three are then the fields that the turn of the row
  computes. No row has the label without the numbers or the numbers without the label.
  When the loop ran through, a row has the three fields of its turn if the turn computes
  any, and the defaults if not.
\<close>

theorem output_row_consistent:
  assumes "url_col a \<in> set (columns df)"
  shows "\<exists>x df' evs.
     process_rows e a df = (x, df', evs) \<and>
     main e a df =
       (case x of
          Some err \<Rightarrow> (Raised err, evs)
        | None \<Rightarrow>
            (case to_csv e (output_path a) df' of
               Some err \<Rightarrow> (Raised err, evs)
             | None \<Rightarrow> (Returned, evs @ [To_csv (output_path a) df', Print (''Wrote: '' @ output_path a)]))) \<and>
     length (rows df') = length (rows df) \<and>
     (\<forall>i. i < length (rows df') \<longrightarrow>
        output_fields (rows df' ! i) = (Str ''N/A'', NA, NA) \<or>
        (\<exists>low high. row_update e a (url_of a df i) =
                       Some (Str (str_int low @ ''-'' @ str_int high), Num low, Num high) \<and>
                     output_fields (rows df' ! i) =
                       (Str (str_int low @ ''-'' @ str_int high), Num low, Num high))) \<and>
     (x = None \<longrightarrow>
        (\<forall>i. i < length (rows df') \<longrightarrow>
           output_fields (rows df' ! i) =
             (case row_update e a (url_of a df i) of
                None \<Rightarrow> (Str ''N/A'', NA, NA)
              | Some t \<Rightarrow> t)))"
proof -
  obtain x df' evs where p: "process_rows e a df = (x, df', evs)"
    by (cases "process_rows e a df") auto
  note l = process_rows_any(2) [OF p]
  have c: "x = None \<longrightarrow>
        (\<forall>i. i < length (rows df') \<longrightarrow>
           output_fields (rows df' ! i) =
             (case row_update e a (url_of a df i) of
                None \<Rightarrow> (Str ''N/A'', NA, NA)
              | Some t \<Rightarrow> t))"
  proof (intro allI impI)
    fix i assume "x = None" and "i < length (rows df')"
    with p l have d: "df' = enrich e a (init_columns df)" and i: "i < length (rows df)"
      using process_rows_None(1) by simp_all
    show "output_fields (rows df' ! i) =
             (case row_update e a (url_of a df i) of
                None \<Rightarrow> (Str ''N/A'', NA, NA)
              | Some t \<Rightarrow> t)"
      unfolding d by (simp add: enrich_row [OF i] row_apply_fields init_row_fields [OF i] split: option.splits)
  qed
  have "\<forall>i. i < length (rows df') \<longrightarrow>
        output_fields (rows df' ! i) = (Str ''N/A'', NA, NA) \<or>
        (\<exists>low high. row_update e a (url_of a df i) =
                       Some (Str (str_int low @ ''-'' @ str_int high), Num low, Num high) \<and>
                     output_fields (rows df' ! i) =
                       (Str (str_int low @ ''-'' @ str_int high), Num low, Num high))"
  proof (intro allI impI)
    fix i assume "i < length (rows df')"
    with l have i: "i < length (rows df)" by simp
    from process_rows_fields [OF p i] row_update_cases [of e a "url_of a df i"]
    show "output_fields (rows df' ! i) = (Str ''N/A'', NA, NA) \<or>
        (\<exists>low high. row_update e a (url_of a df i) =
                       Some (Str (str_int low @ ''-'' @ str_int high), Num low, Num high) \<and>
                     output_fields (rows df' ! i) =
                       (Str (str_int low @ ''-'' @ str_int high), Num low, Num high))"
      by auto
  qed
  with p l c main_of_process [OF assms p] show ?thesis by blast
qed

theorem output_row_consistent_witness:
  "url_col sample_args \<in> set (columns sample_frame) \<and>
   (\<exists>df' evs.
      process_rows sample_env sample_args sample_frame = (None, df', evs) \<and>
      main sample_env sample_args sample_frame =
        (Returned, evs @ [To_csv ''out.csv'' df', Print ''Wrote: out.csv'']) \<and>
      length (rows df') = 4 \<and>
      output_fields (rows df' ! 0) = (Str ''8-9'', Num 8, Num 9) \<and>
      output_fields (rows df' ! 2) = (Str ''N/A'', NA, NA))"
proof -
  from output_row_consistent [OF sample_url_col, of sample_env] obtain x df' evs where
    p: "process_rows sample_env sample_args sample_frame = (x, df', evs)"
    and m: "main sample_env sample_args sample_frame =
        (case x of
           Some err \<Rightarrow> (Raised err, evs)
         | None \<Rightarrow>
             (case to_csv sample_env (output_path sample_args) df' of
                Some err \<Rightarrow> (Raised err, evs)
              | None \<Rightarrow> (Returned, evs @ [To_csv (output_path sample_args) df',
                    Print (''Wrote: '' @ output_path sample_args)])))"
    and l: "length (rows df') = length (rows sample_frame)"
    and c: "x = None \<longrightarrow>
        (\<forall>i. i < length (rows df') \<longrightarrow>
           output_fields (rows df' ! i) =
             (case row_update sample_env sample_args (url_of sample_args sample_frame i) of
                None \<Rightarrow> (Str ''N/A'', NA, NA)
              | Some t \<Rightarrow> t))"
    by blast
  from p sample_process have x: "x = None" by simp
  with m have m': "main sample_env sample_args sample_frame =
        (Returned, evs @ [To_csv ''out.csv'' df', Print ''Wrote: out.csv''])"
    by (simp add: sample_settings)
  from l have l': "length (rows df') = 4" by (simp add: sample_length)
  from c x l' have "output_fields (rows df' ! 0) =
      (case row_update sample_env sample_args (url_of sample_args sample_frame 0) of
                None \<Rightarrow> (Str ''N/A'', NA, NA)
              | Some t \<Rightarrow> t)" by simp
  then have f0: "output_fields (rows df' ! 0) = (Str ''8-9'', Num 8, Num 9)"
    by (simp only: sample_row_update option.case)
  from c x l' have "output_fields (rows df' ! 2) =
      (case row_update sample_env sample_args (url_of sample_args sample_frame 2) of
                None \<Rightarrow> (Str ''N/A'', NA, NA)
              | Some t \<Rightarrow> t)" by simp
  then have f2: "output_fields (rows df' ! 2) = (Str ''N/A'', NA, NA)"
    by (simp only: sample_row_update option.case)
  from p x m' l' f0 f2 sample_url_col show ?thesis by blast
qed

end
